theory Spec2Isabelle
  imports Main "HOL-Library.Word"
begin

unbundle bit_operations_syntax

section \<open>Platform and data model\<close>

text \<open>
  The embedding fixes the LP64 data model of the repository's unix port: \<open>int\<close> and
  \<open>unsigned int\<close> are 32 bits, \<open>long\<close>, \<open>long long\<close>, \<open>size_t\<close>,
  \<open>uintptr_t\<close> and \<open>int_fast64_t\<close> are 64 bits, \<open>char\<close> is 8 bits, and a
  \<open>double\<close> is an IEEE-754 binary64 value held as its 64-bit pattern (the source's
  \<open>double_with_bit_access\<close>). The configuration macros have their default values.
  C identifiers that start with an underscore lose it (\<open>_ntoa\<close> is \<open>ntoa\<close>).
\<close>

type_synonym size_t = "64 word"
type_synonym uint = "32 word"
type_synonym double = "64 word"

datatype error =
    Va_arg_mismatch         \<comment> \<open>\<open>va_arg\<close> past the end of the list or at another type\<close>
  | Format_overread         \<comment> \<open>\<open>format++\<close> steps over the terminating NUL\<close>
  | Signed_overflow         \<comment> \<open>negation of \<open>INT_MIN\<close>\<close>
  | Float_cast_out_of_range \<comment> \<open>a double converted to an integer type that cannot hold it\<close>
  | Index_out_of_bounds     \<comment> \<open>\<open>powers_of_10\<close> read outside its 18 entries\<close>

definition PRINTF_NTOA_BUFFER_SIZE :: nat where "PRINTF_NTOA_BUFFER_SIZE = 32"
definition PRINTF_FTOA_BUFFER_SIZE :: nat where "PRINTF_FTOA_BUFFER_SIZE = 32"
definition PRINTF_DEFAULT_FLOAT_PRECISION :: uint where "PRINTF_DEFAULT_FLOAT_PRECISION = 6"

definition FLAGS_ZEROPAD :: uint where "FLAGS_ZEROPAD = push_bit 0 1"
definition FLAGS_LEFT :: uint where "FLAGS_LEFT = push_bit 1 1"
definition FLAGS_PLUS :: uint where "FLAGS_PLUS = push_bit 2 1"
definition FLAGS_SPACE :: uint where "FLAGS_SPACE = push_bit 3 1"
definition FLAGS_HASH :: uint where "FLAGS_HASH = push_bit 4 1"
definition FLAGS_UPPERCASE :: uint where "FLAGS_UPPERCASE = push_bit 5 1"
definition FLAGS_CHAR :: uint where "FLAGS_CHAR = push_bit 6 1"
definition FLAGS_SHORT :: uint where "FLAGS_SHORT = push_bit 7 1"
definition FLAGS_LONG :: uint where "FLAGS_LONG = push_bit 8 1"
definition FLAGS_LONG_LONG :: uint where "FLAGS_LONG_LONG = push_bit 9 1"
definition FLAGS_PRECISION :: uint where "FLAGS_PRECISION = push_bit 10 1"
definition FLAGS_ADAPT_EXP :: uint where "FLAGS_ADAPT_EXP = push_bit 11 1"
definition FLAGS_POINTER :: uint where "FLAGS_POINTER = push_bit 12 1"

named_theorems flag_defs

lemmas flag_simps [flag_defs] =
  FLAGS_ZEROPAD_def FLAGS_LEFT_def FLAGS_PLUS_def FLAGS_SPACE_def FLAGS_HASH_def
  FLAGS_UPPERCASE_def FLAGS_CHAR_def FLAGS_SHORT_def FLAGS_LONG_def FLAGS_LONG_LONG_def
  FLAGS_PRECISION_def FLAGS_ADAPT_EXP_def FLAGS_POINTER_def

text \<open>\<open>flags & F\<close> used as a condition.\<close>

definition has_flag :: "uint \<Rightarrow> uint \<Rightarrow> bool" where
  "has_flag flags f = (flags AND f \<noteq> 0)"

definition BASE_BINARY :: "8 word" where "BASE_BINARY = 2"
definition BASE_OCTAL :: "8 word" where "BASE_OCTAL = 8"
definition BASE_DECIMAL :: "8 word" where "BASE_DECIMAL = 10"
definition BASE_HEX :: "8 word" where "BASE_HEX = 16"

section \<open>Sinks\<close>

text \<open>
  \<open>out_fct_type\<close>: \<open>out(character, buffer, idx, maxlen)\<close>. The second argument is the
  object \<open>buffer\<close> points to, and the function returns it as the call leaves it.
\<close>

type_synonym 'w out_fct_type = "char \<Rightarrow> 'w \<Rightarrow> size_t \<Rightarrow> size_t \<Rightarrow> 'w"

text \<open>The destination of \<open>_out_buffer\<close>: \<open>buffer i\<close> is the byte \<open>((char*)buffer)[i]\<close>.\<close>

type_synonym char_buffer = "size_t \<Rightarrow> char"

definition out_buffer :: "char_buffer out_fct_type" where
  "out_buffer character buffer idx maxlen =
     (if idx < maxlen then buffer(idx := character) else buffer)"

definition out_null :: "'w out_fct_type" where
  "out_null character buffer idx maxlen = buffer"

text \<open>
  \<open>_out_char\<close> ignores its buffer; its effect is the call of \<open>__io_putchar\<close>. The object
  threaded through is the list of characters handed to \<open>__io_putchar\<close>, oldest first.
\<close>

definition out_char :: "string out_fct_type" where
  "out_char character buffer idx maxlen =
     (if character \<noteq> CHR 0x00 then buffer @ [character] else buffer)"

text \<open>
  \<open>out_fct_wrap_type\<close>: the user's callback and its opaque argument. The callback's effect
  is a change of the state its argument points to.
\<close>

record 'a out_fct_wrap_type =
  fct :: "char \<Rightarrow> 'a \<Rightarrow> 'a"
  arg :: 'a

definition out_fct :: "'a out_fct_wrap_type out_fct_type" where
  "out_fct character buffer idx maxlen =
     (if character \<noteq> CHR 0x00 then buffer\<lparr>arg := fct buffer character (arg buffer)\<rparr>
      else buffer)"

text \<open>
  A sink that records every character it is handed, in order. It is not in the source; it
  names the logical output of a call (what was emitted, whatever the sink kept).
\<close>

definition out_log :: "string out_fct_type" where
  "out_log character buffer idx maxlen = buffer @ [character]"

text \<open>
  Handing a list of characters to a sink, one by one, at the positions \<open>idx\<close>, \<open>idx + 1\<close>
  and so on: the sink after the last one.
\<close>

fun emit :: "'w out_fct_type \<Rightarrow> 'w \<Rightarrow> size_t \<Rightarrow> size_t \<Rightarrow> string \<Rightarrow> 'w" where
  "emit out buffer idx maxlen [] = buffer"
| "emit out buffer idx maxlen (c # cs) = emit out (out c buffer idx maxlen) (idx + 1) maxlen cs"

section \<open>Helpers of the interpreter\<close>

text \<open>
  A C string is modelled by the list of its characters; it ends at the first NUL in the
  list or at the end of the list, whichever comes first.
\<close>

fun strnlen_s :: "string \<Rightarrow> size_t \<Rightarrow> nat" where
  "strnlen_s [] maxsize = 0"
| "strnlen_s (c # s) maxsize =
     (if c \<noteq> CHR 0x00 \<and> maxsize \<noteq> 0 then Suc (strnlen_s s (maxsize - 1)) else 0)"

definition is_digit :: "char \<Rightarrow> bool" where
  "is_digit ch = (of_char (CHR ''0'') \<le> (of_char ch :: nat) \<and> (of_char ch :: nat) \<le> of_char (CHR ''9''))"

text \<open>\<open>*format\<close>: the character under the format pointer, NUL at the end.\<close>

definition peek :: "string \<Rightarrow> char" where
  "peek format = (case format of [] \<Rightarrow> CHR 0x00 | c # _ \<Rightarrow> c)"

text \<open>\<open>_atoi\<close> returns the number and leaves the pointer after the digits.\<close>

fun atoi_loop :: "uint \<Rightarrow> string \<Rightarrow> uint \<times> string" where
  "atoi_loop i [] = (i, [])"
| "atoi_loop i (c # str) =
     (if is_digit c then atoi_loop (i * 10 + (of_char c - of_char (CHR ''0''))) str
      else (i, c # str))"

definition atoi :: "string \<Rightarrow> uint \<times> string" where
  "atoi str = atoi_loop 0 str"

section \<open>Reversed output with padding\<close>

lemma unat_succ_less: "(i :: 'a::len word) < w \<Longrightarrow> unat (i + 1) = Suc (unat i)"
proof -
  assume lt: "i < w"
  have a: "unat w < 2 ^ LENGTH('a)" by (rule unsigned_less)
  from lt have b: "unat i < unat w" by (simp add: word_less_nat_alt)
  from a b have "unat i + 1 < 2 ^ LENGTH('a)" by linarith
  then have "unat i + unat (1 :: 'a word) < 2 ^ LENGTH('a)" by simp
  then have "unat (i + 1) = unat i + unat (1 :: 'a word)" by (simp only: unat_add_lem)
  then show ?thesis by simp
qed

text \<open>\<open>for (size_t i = len; i < width; i++) out(' ', buffer, idx++, maxlen);\<close>\<close>

function out_rev_pad :: "'w out_fct_type \<Rightarrow> 'w \<Rightarrow> size_t \<Rightarrow> size_t \<Rightarrow> size_t \<Rightarrow> size_t
    \<Rightarrow> 'w \<times> size_t" where
  "out_rev_pad out buffer idx maxlen i width =
     (if i < width
      then out_rev_pad out (out CHR '' '' buffer idx maxlen) (idx + 1) maxlen (i + 1) width
      else (buffer, idx))"
  by pat_completeness auto
termination
proof (relation "measure (\<lambda>(out, buffer, idx, maxlen, i, width). unat width - unat i)")
  show "wf (measure (\<lambda>(out :: 'w out_fct_type, buffer :: 'w, idx :: size_t, maxlen :: size_t,
      i :: size_t, width :: size_t). unat width - unat i))"
    by simp
next
  fix out :: "'w out_fct_type" and buffer :: 'w and idx maxlen i width :: size_t
  assume lt: "i < width"
  then have "unat (i + 1) = Suc (unat i)"
    by (rule unat_succ_less)
  with lt show "((out, out CHR '' '' buffer idx maxlen, idx + 1, maxlen, i + 1, width),
      (out, buffer, idx, maxlen, i, width))
      \<in> measure (\<lambda>(out, buffer, idx, maxlen, i, width). unat width - unat i)"
    by (simp add: word_less_nat_alt)
qed

declare out_rev_pad.simps [simp del]

text \<open>\<open>while (len) out(buf[--len], buffer, idx++, maxlen);\<close> The scratch array \<open>buf\<close> with its
  fill level \<open>len\<close> is the list of its first \<open>len\<close> characters.\<close>

function out_rev_buf :: "'w out_fct_type \<Rightarrow> 'w \<Rightarrow> size_t \<Rightarrow> size_t \<Rightarrow> string \<Rightarrow> 'w \<times> size_t" where
  "out_rev_buf out buffer idx maxlen buf =
     (if buf \<noteq> []
      then out_rev_buf out (out (last buf) buffer idx maxlen) (idx + 1) maxlen (butlast buf)
      else (buffer, idx))"
  by pat_completeness auto
termination
  by (relation "measure (\<lambda>(out, buffer, idx, maxlen, buf). length buf)") auto

declare out_rev_buf.simps [simp del]

text \<open>\<open>while (idx - start_idx < width) out(' ', buffer, idx++, maxlen);\<close>\<close>

function out_pad_right :: "'w out_fct_type \<Rightarrow> 'w \<Rightarrow> size_t \<Rightarrow> size_t \<Rightarrow> size_t \<Rightarrow> size_t
    \<Rightarrow> 'w \<times> size_t" where
  "out_pad_right out buffer idx maxlen start_idx width =
     (if idx - start_idx < width
      then out_pad_right out (out CHR '' '' buffer idx maxlen) (idx + 1) maxlen start_idx width
      else (buffer, idx))"
  by pat_completeness auto
termination
proof (relation "measure (\<lambda>(out, buffer, idx, maxlen, start_idx, width).
    unat width - unat (idx - start_idx))")
  show "wf (measure (\<lambda>(out :: 'w out_fct_type, buffer :: 'w, idx :: size_t, maxlen :: size_t,
      start_idx :: size_t, width :: size_t). unat width - unat (idx - start_idx)))"
    by simp
next
  fix out :: "'w out_fct_type" and buffer :: 'w and idx maxlen start_idx width :: size_t
  assume lt: "idx - start_idx < width"
  then have "unat ((idx - start_idx) + 1) = Suc (unat (idx - start_idx))"
    by (rule unat_succ_less)
  moreover have "idx + 1 - start_idx = (idx - start_idx) + 1"
    by simp
  ultimately have "unat (idx + 1 - start_idx) = Suc (unat (idx - start_idx))"
    by (simp only:)
  then show "((out, out CHR '' '' buffer idx maxlen, idx + 1, maxlen, start_idx, width),
      (out, buffer, idx, maxlen, start_idx, width))
      \<in> measure (\<lambda>(out, buffer, idx, maxlen, start_idx, width).
          unat width - unat (idx - start_idx))"
    using lt by (simp add: word_less_nat_alt)
qed

declare out_pad_right.simps [simp del]

definition out_rev :: "'w out_fct_type \<Rightarrow> 'w \<Rightarrow> size_t \<Rightarrow> size_t \<Rightarrow> string \<Rightarrow> uint \<Rightarrow> uint
    \<Rightarrow> 'w \<times> size_t" where
  "out_rev out buffer idx maxlen buf width flags =
     (let start_idx = idx;
          (buffer1, idx1) =
            (if \<not> has_flag flags FLAGS_LEFT \<and> \<not> has_flag flags FLAGS_ZEROPAD
             then out_rev_pad out buffer idx maxlen (of_nat (length buf)) (ucast width)
             else (buffer, idx));
          (buffer2, idx2) = out_rev_buf out buffer1 idx1 maxlen buf
      in if has_flag flags FLAGS_LEFT
         then out_pad_right out buffer2 idx2 maxlen start_idx (ucast width)
         else (buffer2, idx2))"

section \<open>Numeric formatter\<close>

text \<open>\<open>while ((len < limit) && (len < PRINTF_NTOA_BUFFER_SIZE)) buf[len++] = '0';\<close>\<close>

function ntoa_pad_zeros :: "string \<Rightarrow> nat \<Rightarrow> string" where
  "ntoa_pad_zeros buf limit =
     (if length buf < limit \<and> length buf < PRINTF_NTOA_BUFFER_SIZE
      then ntoa_pad_zeros (buf @ [CHR ''0'']) limit
      else buf)"
  by pat_completeness auto
termination
  by (relation "measure (\<lambda>(buf, limit). PRINTF_NTOA_BUFFER_SIZE - length buf)") auto

declare ntoa_pad_zeros.simps [simp del]

text \<open>
  The part of \<open>_ntoa_format\<close> that fills the scratch buffer; it returns the buffer, the
  width and the flags as \<open>_out_rev\<close> receives them.
\<close>

definition ntoa_format_buf :: "string \<Rightarrow> bool \<Rightarrow> 8 word \<Rightarrow> uint \<Rightarrow> uint \<Rightarrow> uint
    \<Rightarrow> string \<times> uint \<times> uint" where
  "ntoa_format_buf buf negative base precision width flags =
     (let unpadded_len = length buf;
          \<comment> \<open>pad with leading zeros\<close>
          width1 =
            (if \<not> has_flag flags FLAGS_LEFT \<and> width \<noteq> 0 \<and> has_flag flags FLAGS_ZEROPAD
                \<and> (negative \<or> has_flag flags (FLAGS_PLUS OR FLAGS_SPACE))
             then width - 1 else width);
          buf1 =
            (if \<not> has_flag flags FLAGS_LEFT \<and> has_flag flags FLAGS_ZEROPAD
             then ntoa_pad_zeros buf (unat width1) else buf);
          buf2 = ntoa_pad_zeros buf1 (unat precision);
          flags1 =
            (if base = BASE_OCTAL \<and> unpadded_len < length buf2
             then flags AND NOT FLAGS_HASH else flags);
          \<comment> \<open>handle hash\<close>
          buf6 =
            (if has_flag flags1 (FLAGS_HASH OR FLAGS_POINTER) then
               let buf3 =
                     (if \<not> has_flag flags1 FLAGS_PRECISION \<and> buf2 \<noteq> []
                         \<and> (length buf2 = unat precision \<or> length buf2 = unat width1)
                      then
                        let b = (if unpadded_len < length buf2 then butlast buf2 else buf2)
                        in if b \<noteq> [] \<and> base = BASE_HEX
                           then (if unpadded_len < length b then butlast b else b)
                           else b
                      else buf2);
                   buf4 =
                     (if base = BASE_HEX \<and> \<not> has_flag flags1 FLAGS_UPPERCASE
                         \<and> length buf3 < PRINTF_NTOA_BUFFER_SIZE
                      then buf3 @ [CHR ''x'']
                      else if base = BASE_HEX \<and> has_flag flags1 FLAGS_UPPERCASE
                         \<and> length buf3 < PRINTF_NTOA_BUFFER_SIZE
                      then buf3 @ [CHR ''X'']
                      else if base = BASE_BINARY \<and> length buf3 < PRINTF_NTOA_BUFFER_SIZE
                      then buf3 @ [CHR ''b'']
                      else buf3)
               in if length buf4 < PRINTF_NTOA_BUFFER_SIZE then buf4 @ [CHR ''0''] else buf4
             else buf2);
          buf7 =
            (if length buf6 < PRINTF_NTOA_BUFFER_SIZE then
               if negative then buf6 @ [CHR ''-'']
               else if has_flag flags1 FLAGS_PLUS then buf6 @ [CHR ''+'']
               else if has_flag flags1 FLAGS_SPACE then buf6 @ [CHR '' '']
               else buf6
             else buf6)
      in (buf7, width1, flags1))"

definition ntoa_format :: "'w out_fct_type \<Rightarrow> 'w \<Rightarrow> size_t \<Rightarrow> size_t \<Rightarrow> string \<Rightarrow> bool
    \<Rightarrow> 8 word \<Rightarrow> uint \<Rightarrow> uint \<Rightarrow> uint \<Rightarrow> 'w \<times> size_t" where
  "ntoa_format out buffer idx maxlen buf negative base precision width flags =
     (let (buf', width', flags') = ntoa_format_buf buf negative base precision width flags
      in out_rev out buffer idx maxlen buf' width' flags')"

text \<open>The digit of \<open>_ntoa\<close>: \<open>digit < 10 ? '0' + digit : (upper ? 'A' : 'a') + digit - 10\<close>.\<close>

definition ntoa_digit :: "size_t \<Rightarrow> uint \<Rightarrow> char" where
  "ntoa_digit digit flags =
     char_of (if digit < 10 then 48 + uint digit
              else (if has_flag flags FLAGS_UPPERCASE then 65 else 97) + uint digit - 10)"

text \<open>The \<open>do ... while (value && (len < PRINTF_NTOA_BUFFER_SIZE))\<close> loop of \<open>_ntoa\<close>.\<close>

function ntoa_digits :: "size_t \<Rightarrow> 8 word \<Rightarrow> uint \<Rightarrow> string \<Rightarrow> string" where
  "ntoa_digits val base flags buf =
     (if val div ucast base \<noteq> 0
         \<and> length (buf @ [ntoa_digit (val mod ucast base) flags]) < PRINTF_NTOA_BUFFER_SIZE
      then ntoa_digits (val div ucast base) base flags
             (buf @ [ntoa_digit (val mod ucast base) flags])
      else buf @ [ntoa_digit (val mod ucast base) flags])"
  by pat_completeness auto
termination
  by (relation "measure (\<lambda>(val, base, flags, buf). PRINTF_NTOA_BUFFER_SIZE - length buf)")
    auto

declare ntoa_digits.simps [simp del]

text \<open>The part of \<open>_ntoa\<close> before the call of \<open>_ntoa_format\<close>: the buffer and the flags.\<close>

definition ntoa_buf :: "size_t \<Rightarrow> 8 word \<Rightarrow> uint \<Rightarrow> string \<times> uint" where
  "ntoa_buf val base flags =
     (if val = 0 then
        if \<not> has_flag flags FLAGS_PRECISION then ([CHR ''0''], flags AND NOT FLAGS_HASH)
        else if base = BASE_HEX then ([], flags AND NOT FLAGS_HASH)
        else ([], flags)
      else (ntoa_digits val base flags [], flags))"

definition ntoa :: "'w out_fct_type \<Rightarrow> 'w \<Rightarrow> size_t \<Rightarrow> size_t \<Rightarrow> size_t \<Rightarrow> bool \<Rightarrow> 8 word
    \<Rightarrow> uint \<Rightarrow> uint \<Rightarrow> uint \<Rightarrow> 'w \<times> size_t" where
  "ntoa out buffer idx maxlen val negative base precision width flags =
     (let (buf, flags') = ntoa_buf val base flags
      in ntoa_format out buffer idx maxlen buf negative base precision width flags')"

text \<open>\<open>NTOA_ABS\<close>: the cast to the unsigned type comes before the negation, which wraps.\<close>

definition NTOA_ABS :: "size_t \<Rightarrow> size_t" where
  "NTOA_ABS x = (if 0 <s x then x else - x)"

section \<open>IEEE-754 binary64 arithmetic\<close>

text \<open>
  The C operations on \<open>double\<close> that the formatter uses, on the bit pattern: every
  operation returns the exact result rounded to the nearest representable value, ties to
  the even mantissa (the default rounding mode, each operation rounded on its own). The
  exact value of a finite double is \<open>m * 2 ^ e\<close> for integers \<open>m\<close> and \<open>e\<close>; an infinity
  reads as \<open>2 ^ 1024\<close> with its sign, which orders it beyond every finite value.
\<close>

text \<open>\<open>get_sign\<close>: the sign is bit 63.\<close>

definition get_sign :: "double \<Rightarrow> bool" where
  "get_sign x = (drop_bit 63 x \<noteq> 0)"

text \<open>\<open>get_exp2\<close>: bits 52 to 62, minus the bias.\<close>

definition get_exp2 :: "double \<Rightarrow> int" where
  "get_exp2 x = uint (drop_bit 52 x AND 0x07FF) - 1023"

text \<open>
  A decoded double: a NaN, an infinity with its sign, or the finite value
  \<open>(- 1) ^ s * m * 2 ^ e\<close> with its sign \<open>s\<close> (a zero keeps its sign).
\<close>

datatype fp = Fp_nan | Fp_inf bool | Fp_finite bool int int

definition decode :: "double \<Rightarrow> fp" where
  "decode x =
     (let s = get_sign x; e = get_exp2 x; m = uint (x AND 0xFFFFFFFFFFFFF)
      in if e = 1024 then (if m = 0 then Fp_inf s else Fp_nan)
         else if e = - 1023 then (if m = 0 then Fp_finite s 0 0 else Fp_finite s m (- 1074))
         else Fp_finite s (2 ^ 52 + m) (e - 52))"

text \<open>The number of binary digits of a positive integer.\<close>

function bit_length :: "int \<Rightarrow> int" where
  "bit_length n = (if n \<le> 0 then 0 else 1 + bit_length (n div 2))"
  by pat_completeness auto
termination
  by (relation "measure nat") auto

declare bit_length.simps [simp del]

text \<open>
  The exponent of the binade of \<open>n / d\<close> for positive \<open>n\<close> and \<open>d\<close>:
  \<open>2 ^ k \<le> n / d < 2 ^ (k + 1)\<close>.
\<close>

definition ilog2_ratio :: "int \<Rightarrow> int \<Rightarrow> int" where
  "ilog2_ratio n d =
     (let k = bit_length n - bit_length d
      in if (if 0 \<le> k then d * 2 ^ nat k \<le> n else d \<le> n * 2 ^ nat (- k)) then k else k - 1)"

text \<open>\<open>n / d\<close> rounded to the nearest integer, a tie to the even one (\<open>0 \<le> n\<close>, \<open>0 < d\<close>).\<close>

definition round_half_even :: "int \<Rightarrow> int \<Rightarrow> int" where
  "round_half_even n d =
     (let q = n div d; r = n mod d
      in if 2 * r < d then q else if d < 2 * r then q + 1 else if even q then q else q + 1)"

text \<open>The bit pattern, without the sign, of \<open>n / d * 2 ^ e\<close> rounded (\<open>0 \<le> n\<close>, \<open>0 < d\<close>).\<close>

definition d_round_mag :: "int \<Rightarrow> int \<Rightarrow> int \<Rightarrow> double" where
  "d_round_mag n d e =
     (if n = 0 then 0
      else
        let E = max (ilog2_ratio n d + e) (- 1022);
            s = e + 52 - E;
            m = (if 0 \<le> s then round_half_even (n * 2 ^ nat s) d
                 else round_half_even n (d * 2 ^ nat (- s)));
            bits = (E + 1022) * 2 ^ 52 + m
        in if 0x7FF0000000000000 \<le> bits then 0x7FF0000000000000 else word_of_int bits)"

text \<open>The double nearest to \<open>n / d * 2 ^ e\<close> for any integer \<open>n\<close> (\<open>0 < d\<close>).\<close>

definition d_round :: "int \<Rightarrow> int \<Rightarrow> int \<Rightarrow> double" where
  "d_round n d e =
     (if n < 0 then d_round_mag (- n) d e OR 0x8000000000000000 else d_round_mag n d e)"

definition d_nan :: double where "d_nan = 0x7FF8000000000000"

definition d_inf :: "bool \<Rightarrow> double" where
  "d_inf negative = (if negative then 0xFFF0000000000000 else 0x7FF0000000000000)"

definition d_zero :: "bool \<Rightarrow> double" where
  "d_zero negative = (if negative then 0x8000000000000000 else 0)"

text \<open>The signed mantissa.\<close>

definition signed :: "bool \<Rightarrow> int \<Rightarrow> int" where
  "signed s m = (if s then - m else m)"

definition d_neg :: "double \<Rightarrow> double" where
  "d_neg x = x XOR 0x8000000000000000"

fun fp_add :: "fp \<Rightarrow> fp \<Rightarrow> double" where
  "fp_add Fp_nan y = d_nan"
| "fp_add (Fp_inf s) Fp_nan = d_nan"
| "fp_add (Fp_inf s) (Fp_inf t) = (if s = t then d_inf s else d_nan)"
| "fp_add (Fp_inf s) (Fp_finite t n f) = d_inf s"
| "fp_add (Fp_finite s m e) Fp_nan = d_nan"
| "fp_add (Fp_finite s m e) (Fp_inf t) = d_inf t"
| "fp_add (Fp_finite s m e) (Fp_finite t n f) =
     (let e' = min e f;
          r = signed s m * 2 ^ nat (e - e') + signed t n * 2 ^ nat (f - e')
      in if r = 0 then d_zero (s \<and> t) else d_round r 1 e')"

definition d_add :: "double \<Rightarrow> double \<Rightarrow> double" where
  "d_add x y = fp_add (decode x) (decode y)"

definition d_sub :: "double \<Rightarrow> double \<Rightarrow> double" where
  "d_sub x y = d_add x (d_neg y)"

fun fp_mul :: "fp \<Rightarrow> fp \<Rightarrow> double" where
  "fp_mul Fp_nan y = d_nan"
| "fp_mul (Fp_inf s) Fp_nan = d_nan"
| "fp_mul (Fp_inf s) (Fp_inf t) = d_inf (s \<noteq> t)"
| "fp_mul (Fp_inf s) (Fp_finite t n f) = (if n = 0 then d_nan else d_inf (s \<noteq> t))"
| "fp_mul (Fp_finite s m e) Fp_nan = d_nan"
| "fp_mul (Fp_finite s m e) (Fp_inf t) = (if m = 0 then d_nan else d_inf (s \<noteq> t))"
| "fp_mul (Fp_finite s m e) (Fp_finite t n f) =
     (if m = 0 \<or> n = 0 then d_zero (s \<noteq> t) else d_round (signed (s \<noteq> t) (m * n)) 1 (e + f))"

definition d_mul :: "double \<Rightarrow> double \<Rightarrow> double" where
  "d_mul x y = fp_mul (decode x) (decode y)"

fun fp_div :: "fp \<Rightarrow> fp \<Rightarrow> double" where
  "fp_div Fp_nan y = d_nan"
| "fp_div (Fp_inf s) Fp_nan = d_nan"
| "fp_div (Fp_inf s) (Fp_inf t) = d_nan"
| "fp_div (Fp_inf s) (Fp_finite t n f) = d_inf (s \<noteq> t)"
| "fp_div (Fp_finite s m e) Fp_nan = d_nan"
| "fp_div (Fp_finite s m e) (Fp_inf t) = d_zero (s \<noteq> t)"
| "fp_div (Fp_finite s m e) (Fp_finite t n f) =
     (if n = 0 then (if m = 0 then d_nan else d_inf (s \<noteq> t))
      else if m = 0 then d_zero (s \<noteq> t)
      else d_round (signed (s \<noteq> t) m) n (e - f))"

definition d_div :: "double \<Rightarrow> double \<Rightarrow> double" where
  "d_div x y = fp_div (decode x) (decode y)"

text \<open>
  The order of two decoded doubles: \<open>fp_cmp x y\<close> is the sign of \<open>x - y\<close>, and nothing
  when one of them is a NaN.
\<close>

fun fp_cmp :: "fp \<Rightarrow> fp \<Rightarrow> int option" where
  "fp_cmp Fp_nan y = None"
| "fp_cmp (Fp_inf s) Fp_nan = None"
| "fp_cmp (Fp_inf s) (Fp_inf t) = Some (if s = t then 0 else if s then - 1 else 1)"
| "fp_cmp (Fp_inf s) (Fp_finite t n f) = Some (if s then - 1 else 1)"
| "fp_cmp (Fp_finite s m e) Fp_nan = None"
| "fp_cmp (Fp_finite s m e) (Fp_inf t) = Some (if t then 1 else - 1)"
| "fp_cmp (Fp_finite s m e) (Fp_finite t n f) =
     (let e' = min e f
      in Some (sgn (signed s m * 2 ^ nat (e - e') - signed t n * 2 ^ nat (f - e'))))"

definition d_lt :: "double \<Rightarrow> double \<Rightarrow> bool" where
  "d_lt x y = (fp_cmp (decode x) (decode y) = Some (- 1))"

definition d_le :: "double \<Rightarrow> double \<Rightarrow> bool" where
  "d_le x y = (fp_cmp (decode x) (decode y) = Some (- 1) \<or> fp_cmp (decode x) (decode y) = Some 0)"

definition d_eq :: "double \<Rightarrow> double \<Rightarrow> bool" where
  "d_eq x y = (fp_cmp (decode x) (decode y) = Some 0)"

text \<open>The conversion of an integer to \<open>double\<close>, and the decimal literal \<open>n / d\<close>.\<close>

definition d_of_int :: "int \<Rightarrow> double" where
  "d_of_int i = d_round i 1 0"

definition d_lit :: "int \<Rightarrow> int \<Rightarrow> double" where
  "d_lit n d = d_round n d 0"

text \<open>
  The conversion of a \<open>double\<close> to a signed integer type of \<open>n\<close> bits drops the fraction;
  it is undefined when the result does not fit.
\<close>

fun fp_to_int :: "nat \<Rightarrow> fp \<Rightarrow> error + int" where
  "fp_to_int n (Fp_finite s m e) =
     (let t = signed s (if 0 \<le> e then m * 2 ^ nat e else m div 2 ^ nat (- e))
      in if - (2 ^ (n - 1)) \<le> t \<and> t < 2 ^ (n - 1) then Inr t
         else Inl Float_cast_out_of_range)"
| "fp_to_int n x = Inl Float_cast_out_of_range"

definition d_to_int :: "nat \<Rightarrow> double \<Rightarrow> error + int" where
  "d_to_int n x = fp_to_int n (decode x)"

definition DBL_MAX :: double where "DBL_MAX = 0x7FEFFFFFFFFFFFFF"

text \<open>Integer division and remainder of C: the quotient is truncated towards zero.\<close>

definition tdiv :: "int \<Rightarrow> int \<Rightarrow> int" where
  "tdiv a b = sgn a * sgn b * (\<bar>a\<bar> div \<bar>b\<bar>)"

definition tmod :: "int \<Rightarrow> int \<Rightarrow> int" where
  "tmod a b = a - b * tdiv a b"

section \<open>Floating-point formatter: decomposition\<close>

text \<open>\<open>struct double_components\<close>; the two \<open>int_fast64_t\<close> fields are 64-bit words read signed.\<close>

record double_components =
  integral :: "64 word"
  fractional :: "64 word"
  is_negative :: bool

text \<open>\<open>powers_of_10[i]\<close>: the table has 18 entries, \<open>1e00\<close> to \<open>1e17\<close>, all exact.\<close>

definition NUM_DECIMAL_DIGITS_IN_INT64_T :: nat where "NUM_DECIMAL_DIGITS_IN_INT64_T = 18"

definition powers_of_10 :: "nat \<Rightarrow> error + double" where
  "powers_of_10 i =
     (if i < NUM_DECIMAL_DIGITS_IN_INT64_T then Inr (d_of_int (10 ^ i))
      else Inl Index_out_of_bounds)"

definition d_half :: double where "d_half = d_lit 1 2"

text \<open>\<open>(int_fast64_t) x\<close> and \<open>(double) i\<close> for a 64-bit signed \<open>i\<close>.\<close>

definition d_to_int64 :: "double \<Rightarrow> error + 64 word" where
  "d_to_int64 x = (case d_to_int 64 x of Inl e \<Rightarrow> Inl e | Inr i \<Rightarrow> Inr (word_of_int i))"

definition d_of_int64 :: "64 word \<Rightarrow> double" where
  "d_of_int64 i = d_of_int (sint i)"

text \<open>
  \<open>get_components\<close>, first part (up to \<open>remainder -= (double) number_.fractional\<close>): the
  truncated components, the remainder left for the rounding decision, the magnitude and
  the power of ten.
\<close>

record truncated_components =
  t_components :: double_components
  t_remainder :: double
  t_abs_number :: double
  t_power_of_10 :: double

definition get_components_truncate :: "double \<Rightarrow> uint \<Rightarrow> error + truncated_components" where
  "get_components_truncate number precision =
     (let negative = get_sign number;
          abs_number = (if negative then d_neg number else number)
      in case d_to_int64 abs_number of Inl e \<Rightarrow> Inl e | Inr integral0 \<Rightarrow>
         (case powers_of_10 (unat precision) of Inl e \<Rightarrow> Inl e | Inr p10 \<Rightarrow>
         (let remainder0 = d_mul (d_sub abs_number (d_of_int64 integral0)) p10
          in case d_to_int64 remainder0 of Inl e \<Rightarrow> Inl e | Inr fractional0 \<Rightarrow>
             Inr \<lparr>t_components =
                    \<lparr>integral = integral0, fractional = fractional0, is_negative = negative\<rparr>,
                  t_remainder = d_sub remainder0 (d_of_int64 fractional0),
                  t_abs_number = abs_number,
                  t_power_of_10 = p10\<rparr>)))"

text \<open>\<open>get_components\<close>, second part: the rounding decision on the fractional part.\<close>

definition get_components_round :: "truncated_components \<Rightarrow> double_components" where
  "get_components_round t =
     (let c = t_components t
      in if d_lt d_half (t_remainder t) then
           (if d_le (t_power_of_10 t) (d_of_int64 (fractional c + 1))
            then c\<lparr>fractional := 0, integral := integral c + 1\<rparr>
            else c\<lparr>fractional := fractional c + 1\<rparr>)
         else if d_eq (t_remainder t) d_half then
           (if fractional c = 0 \<or> fractional c AND 1 \<noteq> 0
            then c\<lparr>fractional := fractional c + 1\<rparr>
            else c)
         else c)"

text \<open>\<open>get_components\<close>, third part: the adjustment of the integral part at precision 0.\<close>

definition get_components_precision0 :: "double \<Rightarrow> double_components \<Rightarrow> double_components" where
  "get_components_precision0 abs_number c =
     (let remainder = d_sub abs_number (d_of_int64 (integral c))
      in if (\<not> d_lt remainder d_half \<or> d_lt d_half remainder) \<and> integral c AND 1 \<noteq> 0
         then c\<lparr>integral := integral c + 1\<rparr>
         else c)"

definition get_components :: "double \<Rightarrow> uint \<Rightarrow> error + double_components" where
  "get_components number precision =
     (case get_components_truncate number precision of Inl e \<Rightarrow> Inl e | Inr t \<Rightarrow>
        (let c = get_components_round t
         in Inr (if precision = 0 then get_components_precision0 (t_abs_number t) c else c)))"

text \<open>\<open>struct scaling_factor\<close> and its operations.\<close>

record scaling_factor =
  raw_factor :: double
  multiply :: bool

definition apply_scaling :: "double \<Rightarrow> scaling_factor \<Rightarrow> double" where
  "apply_scaling num normalization =
     (if multiply normalization then d_mul num (raw_factor normalization)
      else d_div num (raw_factor normalization))"

definition unapply_scaling :: "double \<Rightarrow> scaling_factor \<Rightarrow> double" where
  "unapply_scaling normalized normalization =
     (if multiply normalization then d_div normalized (raw_factor normalization)
      else d_mul normalized (raw_factor normalization))"

definition update_normalization :: "scaling_factor \<Rightarrow> double \<Rightarrow> scaling_factor" where
  "update_normalization sf extra_multiplicative_factor =
     (if multiply sf
      then \<lparr>raw_factor = d_mul (raw_factor sf) extra_multiplicative_factor, multiply = True\<rparr>
      else
        let factor_exp2 = get_exp2 (raw_factor sf);
            extra_factor_exp2 = get_exp2 extra_multiplicative_factor
        in if \<bar>extra_factor_exp2\<bar> < \<bar>factor_exp2\<bar>
           then \<lparr>raw_factor = d_div (raw_factor sf) extra_multiplicative_factor,
                 multiply = False\<rparr>
           else \<lparr>raw_factor = d_div extra_multiplicative_factor (raw_factor sf),
                 multiply = True\<rparr>)"

definition get_normalized_components :: "bool \<Rightarrow> uint \<Rightarrow> double \<Rightarrow> scaling_factor
    \<Rightarrow> error + double_components" where
  "get_normalized_components negative precision non_normalized normalization =
     (case d_to_int64 (apply_scaling non_normalized normalization) of
        Inl e \<Rightarrow> Inl e
      | Inr integral0 \<Rightarrow>
     (case powers_of_10 (unat precision) of Inl e \<Rightarrow> Inl e | Inr prec_power_of_10 \<Rightarrow>
     (let remainder =
            d_sub non_normalized (unapply_scaling (d_of_int64 integral0) normalization);
          account_for_precision = update_normalization normalization prec_power_of_10;
          scaled_remainder = apply_scaling remainder account_for_precision;
          rounding_threshold = d_half
      in if precision = 0 then
           (let integral1 =
                  integral0 + (if d_le rounding_threshold scaled_remainder then 1 else 0);
                integral2 =
                  (if d_eq scaled_remainder rounding_threshold then integral1 AND NOT 1
                   else integral1)
            in Inr \<lparr>integral = integral2, fractional = 0, is_negative = negative\<rparr>)
         else
           (case d_to_int64 scaled_remainder of Inl e \<Rightarrow> Inl e | Inr fractional0 \<Rightarrow>
           (let scaled_remainder' = d_sub scaled_remainder (d_of_int64 fractional0);
                fractional1 =
                  fractional0 + (if d_le rounding_threshold scaled_remainder' then 1 else 0);
                fractional2 =
                  (if d_eq scaled_remainder' rounding_threshold then fractional1 AND NOT 1
                   else fractional1)
            in if d_le prec_power_of_10 (d_of_int64 fractional2)
               then Inr \<lparr>integral = integral0 + 1, fractional = 0, is_negative = negative\<rparr>
               else Inr \<lparr>integral = integral0, fractional = fractional2,
                         is_negative = negative\<rparr>)))))"

section \<open>Floating-point formatter: output\<close>

text \<open>\<open>(char)('0' + r)\<close> for a remainder \<open>r\<close>.\<close>

definition digit_char :: "int \<Rightarrow> char" where
  "digit_char r = char_of (48 + r)"

text \<open>
  The loop that skips the trailing zero digits of the fractional part for \<open>%g\<close>. The source
  enters it only with \<open>number_.fractional > 0\<close>, which every division by 10 of a multiple
  of 10 keeps; the test is part of the loop condition here.
\<close>

function skip_trailing_zeros :: "int \<Rightarrow> uint \<Rightarrow> int \<times> uint" where
  "skip_trailing_zeros fractional_part count =
     (if 0 < fractional_part \<and> tmod fractional_part 10 = 0
      then skip_trailing_zeros (tdiv fractional_part 10) (count - 1)
      else (fractional_part, count))"
  by pat_completeness auto
termination
  by (relation "measure (\<lambda>(fractional_part, count). nat fractional_part)")
    (auto simp: tdiv_def)

declare skip_trailing_zeros.simps [simp del]

text \<open>
  \<open>while (len < PRINTF_FTOA_BUFFER_SIZE) { --count; buf[len++] = (char)('0' +
  number_.fractional % 10U); if (!(number_.fractional /= 10U)) break; }\<close>
\<close>

function fractional_digits :: "int \<Rightarrow> uint \<Rightarrow> string \<Rightarrow> uint \<times> string" where
  "fractional_digits fractional_part count buf =
     (if length buf < PRINTF_FTOA_BUFFER_SIZE
      then (if tdiv fractional_part 10 = 0
            then (count - 1, buf @ [digit_char (tmod fractional_part 10)])
            else fractional_digits (tdiv fractional_part 10) (count - 1)
                   (buf @ [digit_char (tmod fractional_part 10)]))
      else (count, buf))"
  by pat_completeness auto
termination
  by (relation "measure (\<lambda>(fractional_part, count, buf). PRINTF_FTOA_BUFFER_SIZE - length buf)")
    auto

declare fractional_digits.simps [simp del]

text \<open>\<open>while ((len < PRINTF_FTOA_BUFFER_SIZE) && (count-- > 0U)) buf[len++] = '0';\<close>\<close>

function extra_zeros :: "uint \<Rightarrow> string \<Rightarrow> string" where
  "extra_zeros count buf =
     (if length buf < PRINTF_FTOA_BUFFER_SIZE \<and> 0 < count
      then extra_zeros (count - 1) (buf @ [CHR ''0''])
      else buf)"
  by pat_completeness auto
termination
  by (relation "measure (\<lambda>(count, buf). PRINTF_FTOA_BUFFER_SIZE - length buf)") auto

declare extra_zeros.simps [simp del]

text \<open>
  \<open>while (len < PRINTF_FTOA_BUFFER_SIZE) { buf[len++] = (char)('0' + (number_.integral %
  10)); if (!(number_.integral /= 10)) break; }\<close>
\<close>

function integral_digits :: "int \<Rightarrow> string \<Rightarrow> string" where
  "integral_digits integral_part buf =
     (if length buf < PRINTF_FTOA_BUFFER_SIZE
      then (if tdiv integral_part 10 = 0
            then buf @ [digit_char (tmod integral_part 10)]
            else integral_digits (tdiv integral_part 10)
                   (buf @ [digit_char (tmod integral_part 10)]))
      else buf)"
  by pat_completeness auto
termination
  by (relation "measure (\<lambda>(integral_part, buf). PRINTF_FTOA_BUFFER_SIZE - length buf)") auto

declare integral_digits.simps [simp del]

text \<open>\<open>while ((len < width) && (len < PRINTF_FTOA_BUFFER_SIZE)) buf[len++] = '0';\<close>\<close>

function ftoa_pad_zeros :: "string \<Rightarrow> nat \<Rightarrow> string" where
  "ftoa_pad_zeros buf limit =
     (if length buf < limit \<and> length buf < PRINTF_FTOA_BUFFER_SIZE
      then ftoa_pad_zeros (buf @ [CHR ''0'']) limit
      else buf)"
  by pat_completeness auto
termination
  by (relation "measure (\<lambda>(buf, limit). PRINTF_FTOA_BUFFER_SIZE - length buf)") auto

declare ftoa_pad_zeros.simps [simp del]

text \<open>
  The part of \<open>sprint_broken_up_decimal\<close> that fills the scratch buffer; it returns the
  buffer and the width as \<open>_out_rev\<close> receives them.
\<close>

definition sprint_broken_up_decimal_buf :: "double_components \<Rightarrow> uint \<Rightarrow> uint \<Rightarrow> uint
    \<Rightarrow> string \<Rightarrow> string \<times> uint" where
  "sprint_broken_up_decimal_buf num precision width flags buf =
     (let buf1 =
            (if precision \<noteq> 0 then
               (case (if has_flag flags FLAGS_ADAPT_EXP \<and> \<not> has_flag flags FLAGS_HASH
                         \<and> 0 < sint (fractional num)
                      then skip_trailing_zeros (sint (fractional num)) precision
                      else (sint (fractional num), precision)) of
                  (fractional1, count1) \<Rightarrow>
                    if 0 < fractional1 \<or> \<not> has_flag flags FLAGS_ADAPT_EXP
                       \<or> has_flag flags FLAGS_HASH
                    then
                      (case fractional_digits fractional1 count1 buf of
                         (count2, buf') \<Rightarrow>
                           (let buf'' = extra_zeros count2 buf'
                            in if length buf'' < PRINTF_FTOA_BUFFER_SIZE
                               then buf'' @ [CHR ''.''] else buf''))
                    else buf)
             else if has_flag flags FLAGS_HASH \<and> length buf < PRINTF_FTOA_BUFFER_SIZE
             then buf @ [CHR ''.'']
             else buf);
          buf2 = integral_digits (sint (integral num)) buf1;
          \<comment> \<open>pad leading zeros\<close>
          width1 =
            (if \<not> has_flag flags FLAGS_LEFT \<and> has_flag flags FLAGS_ZEROPAD \<and> width \<noteq> 0
                \<and> (is_negative num \<or> has_flag flags (FLAGS_PLUS OR FLAGS_SPACE))
             then width - 1 else width);
          buf3 =
            (if \<not> has_flag flags FLAGS_LEFT \<and> has_flag flags FLAGS_ZEROPAD
             then ftoa_pad_zeros buf2 (unat width1) else buf2);
          buf4 =
            (if length buf3 < PRINTF_FTOA_BUFFER_SIZE then
               if is_negative num then buf3 @ [CHR ''-'']
               else if has_flag flags FLAGS_PLUS then buf3 @ [CHR ''+'']
               else if has_flag flags FLAGS_SPACE then buf3 @ [CHR '' '']
               else buf3
             else buf3)
      in (buf4, width1))"

definition sprint_broken_up_decimal :: "double_components \<Rightarrow> 'w out_fct_type \<Rightarrow> 'w \<Rightarrow> size_t
    \<Rightarrow> size_t \<Rightarrow> uint \<Rightarrow> uint \<Rightarrow> uint \<Rightarrow> string \<Rightarrow> 'w \<times> size_t" where
  "sprint_broken_up_decimal num out buffer idx maxlen precision width flags buf =
     (case sprint_broken_up_decimal_buf num precision width flags buf of
        (buf', width') \<Rightarrow> out_rev out buffer idx maxlen buf' width' flags)"

definition sprint_decimal_number :: "'w out_fct_type \<Rightarrow> 'w \<Rightarrow> size_t \<Rightarrow> size_t \<Rightarrow> double
    \<Rightarrow> uint \<Rightarrow> uint \<Rightarrow> uint \<Rightarrow> string \<Rightarrow> error + 'w \<times> size_t" where
  "sprint_decimal_number out buffer idx maxlen number precision width flags buf =
     (case get_components number precision of
        Inl e \<Rightarrow> Inl e
      | Inr components \<Rightarrow>
          Inr (sprint_broken_up_decimal components out buffer idx maxlen precision width flags buf))"

section \<open>Floating-point formatter: exponential notation\<close>

definition PRINTF_MAX_PRECOMPUTED_POWER_OF_10 :: int where
  "PRINTF_MAX_PRECOMPUTED_POWER_OF_10 = 18"

text \<open>
  The estimate of the decimal exponent (the block of \<open>sprint_exponential_number\<close> after
  David Gay's algorithm), for \<open>abs_number \<noteq> 0\<close>: the exponent \<open>exp10\<close> and the power of
  ten \<open>conv.F\<close> that goes with it.
\<close>

definition estimate_exp10 :: "double \<Rightarrow> error + int \<times> double" where
  "estimate_exp10 abs_number =
     (let exp2 = get_exp2 abs_number;
          conv1 = (abs_number AND (push_bit 52 1 - 1)) OR push_bit 52 1023
      in case d_to_int 32
           (d_add (d_add (d_lit 1760912590558 10000000000000)
                         (d_mul (d_of_int exp2) (d_lit 301029995663981 1000000000000000)))
                  (d_mul (d_sub conv1 (d_lit 3 2)) (d_lit 289529654602168 1000000000000000))) of
           Inl e \<Rightarrow> Inl e
         | Inr exp10 \<Rightarrow>
        (case d_to_int 32
           (d_add (d_mul (d_of_int exp10) (d_lit 3321928094887362 1000000000000000)) d_half) of
           Inl e \<Rightarrow> Inl e
         | Inr exp2' \<Rightarrow>
        (let z = d_sub (d_mul (d_of_int exp10) (d_lit 2302585092994046 1000000000000000))
                       (d_mul (d_of_int exp2') (d_lit 6931471805599453 10000000000000000));
             z2 = d_mul z z;
             conv2 = push_bit 52 (word_of_int (exp2' + 1023) :: 64 word);
             conv3 =
               d_mul conv2
                 (d_add (d_of_int 1)
                    (d_div (d_mul (d_of_int 2) z)
                       (d_add (d_sub (d_of_int 2) z)
                          (d_div z2
                             (d_add (d_of_int 6)
                                (d_div z2 (d_add (d_of_int 10) (d_div z2 (d_of_int 14)))))))))
         in if d_lt abs_number conv3
            then Inr (exp10 - 1, d_div conv3 (d_of_int 10))
            else Inr (exp10, conv3))))"

text \<open>
  What \<open>sprint_exponential_number\<close> has decided when it starts to write: the components
  of the decimal part, the precision, width and flags for \<open>sprint_broken_up_decimal\<close>, the
  exponent and its width, and whether only the decimal part is printed.
\<close>

record exponential_plan =
  decimal_part_components :: double_components
  decimal_precision :: uint
  decimal_part_width :: uint
  decimal_flags :: uint
  exp10_value :: int
  exp10_part_width :: uint
  fall_back_to_decimal_only_mode :: bool

text \<open>
  \<open>(int) precision\<close> of an \<open>unsigned int\<close>, and the two subtractions of
  \<open>(int) precision - 1 - exp10\<close>; a result outside \<open>int\<close> is a signed overflow.
\<close>

definition int_range :: "int \<Rightarrow> error + int" where
  "int_range i = (if - (2 ^ 31) \<le> i \<and> i < 2 ^ 31 then Inr i else Inl Signed_overflow)"

definition sprint_exponential_plan :: "double \<Rightarrow> uint \<Rightarrow> uint \<Rightarrow> uint
    \<Rightarrow> error + exponential_plan" where
  "sprint_exponential_plan number precision width flags =
     (let negative = get_sign number;
          abs_number = (if negative then d_neg number else number)
      in case (if d_eq abs_number (d_of_int 0)
               then Inr (0, False, 0)
               else
                 (case estimate_exp10 abs_number of
                    Inl e \<Rightarrow> Inl e
                  | Inr (exp10, conv) \<Rightarrow>
                      if \<bar>exp10\<bar> < PRINTF_MAX_PRECOMPUTED_POWER_OF_10
                      then (case powers_of_10 (nat \<bar>exp10\<bar>) of
                              Inl e \<Rightarrow> Inl e
                            | Inr p \<Rightarrow> Inr (exp10, True, p))
                      else Inr (exp10, False, conv))) of
           Inl e \<Rightarrow> Inl e
         | Inr (exp10, abs_exp10_covered_by_powers_table, factor) \<Rightarrow>
        (case (if has_flag flags FLAGS_ADAPT_EXP then
                 (let required_significant_digits = (if precision = 0 then 1 else sint precision);
                      fall_back = (- 4 \<le> exp10 \<and> exp10 < required_significant_digits)
                  in case int_range (sint precision - 1) of
                       Inl e \<Rightarrow> Inl e
                     | Inr p1 \<Rightarrow>
                    (case (if fall_back then int_range (p1 - exp10) else Inr p1) of
                       Inl e \<Rightarrow> Inl e
                     | Inr precision_ \<Rightarrow>
                         Inr (fall_back,
                              if 0 < precision_ then word_of_int precision_ else 0,
                              flags OR FLAGS_PRECISION)))
               else Inr (False, precision, flags)) of
           Inl e \<Rightarrow> Inl e
         | Inr (fall_back, precision1, flags1) \<Rightarrow>
        (let normalization =
               \<lparr>raw_factor = factor,
                multiply = (exp10 < 0 \<and> abs_exp10_covered_by_powers_table)\<rparr>;
             should_skip_normalization = (fall_back \<or> exp10 = 0)
         in case (if should_skip_normalization
                  then get_components (if negative then d_neg abs_number else abs_number)
                         precision1
                  else get_normalized_components negative precision1 abs_number
                         normalization) of
              Inl e \<Rightarrow> Inl e
            | Inr c \<Rightarrow>
           (case (if fall_back then
                    (if has_flag flags1 FLAGS_ADAPT_EXP \<and> - 1 \<le> exp10 then
                       (case powers_of_10 (nat (exp10 + 1)) of
                          Inl e \<Rightarrow> Inl e
                        | Inr p \<Rightarrow>
                            if d_eq (d_of_int64 (integral c)) p
                            then Inr (exp10 + 1, precision1 - 1, c)
                            else Inr (exp10, precision1, c))
                     else Inr (exp10, precision1, c))
                  else if 10 \<le>s integral c
                  then Inr (exp10 + 1, precision1, c\<lparr>integral := 1, fractional := 0\<rparr>)
                  else Inr (exp10, precision1, c)) of
              Inl e \<Rightarrow> Inl e
            | Inr (exp10', precision2, c') \<Rightarrow>
           (let part_width =
                  (if fall_back then 0 else if exp10' < 100 \<and> - 100 < exp10' then 4 else 5)
            in Inr \<lparr>decimal_part_components = c',
                    decimal_precision = precision2,
                    decimal_part_width =
                      (if has_flag flags1 FLAGS_LEFT \<and> part_width \<noteq> 0 then 0
                       else if part_width < width then width - part_width else 0),
                    decimal_flags = flags1,
                    exp10_value = exp10',
                    exp10_part_width = part_width,
                    fall_back_to_decimal_only_mode = fall_back\<rparr>)))))"

definition sprint_exponential_number :: "'w out_fct_type \<Rightarrow> 'w \<Rightarrow> size_t \<Rightarrow> size_t \<Rightarrow> double
    \<Rightarrow> uint \<Rightarrow> uint \<Rightarrow> uint \<Rightarrow> string \<Rightarrow> error + 'w \<times> size_t" where
  "sprint_exponential_number out buffer idx maxlen number precision width flags buf =
     (case sprint_exponential_plan number precision width flags of
        Inl e \<Rightarrow> Inl e
      | Inr p \<Rightarrow>
          Inr (case sprint_broken_up_decimal (decimal_part_components p) out buffer idx maxlen
                      (decimal_precision p) (decimal_part_width p) (decimal_flags p) buf of
                 (buffer1, idx1) \<Rightarrow>
                   if \<not> fall_back_to_decimal_only_mode p then
                     (case ntoa out
                             (out (if has_flag (decimal_flags p) FLAGS_UPPERCASE
                                   then CHR ''E'' else CHR ''e'') buffer1 idx1 maxlen)
                             (idx1 + 1) maxlen
                             (NTOA_ABS (word_of_int (exp10_value p))) (exp10_value p < 0)
                             BASE_DECIMAL 0 (exp10_part_width p - 1)
                             (FLAGS_ZEROPAD OR FLAGS_PLUS) of
                        (buffer2, idx2) \<Rightarrow>
                          if has_flag (decimal_flags p) FLAGS_LEFT
                          then out_pad_right out buffer2 idx2 maxlen idx (ucast width)
                          else (buffer2, idx2))
                   else (buffer1, idx1)))"

text \<open>
  \<open>while ((len < PRINTF_FTOA_BUFFER_SIZE) && (precision > PRINTF_MAX_SUPPORTED_PRECISION))\<close>:
  the macro expands to \<open>18 - 1\<close>, and the test reads \<open>precision > 17\<close>.
\<close>

function limit_precision :: "string \<Rightarrow> uint \<Rightarrow> string \<times> uint" where
  "limit_precision buf precision =
     (if length buf < PRINTF_FTOA_BUFFER_SIZE \<and> 17 < precision
      then limit_precision (buf @ [CHR ''0'']) (precision - 1)
      else (buf, precision))"
  by pat_completeness auto
termination
  by (relation "measure (\<lambda>(buf, precision). PRINTF_FTOA_BUFFER_SIZE - length buf)") auto

declare limit_precision.simps [simp del]

definition PRINTF_FLOAT_NOTATION_THRESHOLD :: double where
  "PRINTF_FLOAT_NOTATION_THRESHOLD = d_of_int 1000000000"

definition sprint_floating_point :: "'w out_fct_type \<Rightarrow> 'w \<Rightarrow> size_t \<Rightarrow> size_t \<Rightarrow> double
    \<Rightarrow> uint \<Rightarrow> uint \<Rightarrow> uint \<Rightarrow> bool \<Rightarrow> error + 'w \<times> size_t" where
  "sprint_floating_point out buffer idx maxlen val precision width flags prefer_exponential =
     (if \<not> d_eq val val
      then Inr (out_rev out buffer idx maxlen ''nan'' width flags)
      else if d_lt val (d_neg DBL_MAX)
      then Inr (out_rev out buffer idx maxlen ''fni-'' width flags)
      else if d_lt DBL_MAX val
      then Inr (out_rev out buffer idx maxlen
                  (if has_flag flags FLAGS_PLUS then ''fni+'' else ''fni'') width flags)
      else if \<not> prefer_exponential
           \<and> (d_lt PRINTF_FLOAT_NOTATION_THRESHOLD val
                \<or> d_lt val (d_neg PRINTF_FLOAT_NOTATION_THRESHOLD))
      then sprint_exponential_number out buffer idx maxlen val precision width flags []
      else
        (case limit_precision []
                (if \<not> has_flag flags FLAGS_PRECISION then PRINTF_DEFAULT_FLOAT_PRECISION
                 else precision) of
           (buf, precision') \<Rightarrow>
             if prefer_exponential
             then sprint_exponential_number out buffer idx maxlen val precision' width flags buf
             else sprint_decimal_number out buffer idx maxlen val precision' width flags buf))"

section \<open>Format-string interpreter\<close>

text \<open>
  The variadic arguments after the default promotions, by the type \<open>va_arg\<close> reads them
  at: \<open>int\<close> (also read as \<open>unsigned int\<close>), \<open>long\<close>, \<open>long long\<close> (each also read as
  its unsigned type), \<open>double\<close>, \<open>char*\<close> (nothing for \<open>NULL\<close>, else the string) and
  \<open>void*\<close> (the address, 0 for \<open>NULL\<close>). Reading past the end or at another type is
  undefined in C and an error here.
\<close>

datatype va_arg =
    VA_int uint
  | VA_long "64 word"
  | VA_long_long "64 word"
  | VA_double double
  | VA_char_ptr "string option"
  | VA_void_ptr "64 word"

type_synonym va_list = "va_arg list"

fun va_arg_int :: "va_list \<Rightarrow> error + uint \<times> va_list" where
  "va_arg_int (VA_int v # va) = Inr (v, va)"
| "va_arg_int va = Inl Va_arg_mismatch"

fun va_arg_long :: "va_list \<Rightarrow> error + 64 word \<times> va_list" where
  "va_arg_long (VA_long v # va) = Inr (v, va)"
| "va_arg_long va = Inl Va_arg_mismatch"

fun va_arg_long_long :: "va_list \<Rightarrow> error + 64 word \<times> va_list" where
  "va_arg_long_long (VA_long_long v # va) = Inr (v, va)"
| "va_arg_long_long va = Inl Va_arg_mismatch"

fun va_arg_double :: "va_list \<Rightarrow> error + double \<times> va_list" where
  "va_arg_double (VA_double v # va) = Inr (v, va)"
| "va_arg_double va = Inl Va_arg_mismatch"

fun va_arg_char_ptr :: "va_list \<Rightarrow> error + string option \<times> va_list" where
  "va_arg_char_ptr (VA_char_ptr p # va) = Inr (p, va)"
| "va_arg_char_ptr va = Inl Va_arg_mismatch"

fun va_arg_void_ptr :: "va_list \<Rightarrow> error + 64 word \<times> va_list" where
  "va_arg_void_ptr (VA_void_ptr p # va) = Inr (p, va)"
| "va_arg_void_ptr va = Inl Va_arg_mismatch"

text \<open>The \<open>do ... while (n)\<close> loop over the flag characters.\<close>

fun eval_flags :: "uint \<Rightarrow> string \<Rightarrow> uint \<times> string" where
  "eval_flags flags [] = (flags, [])"
| "eval_flags flags (c # format) =
     (if c = CHR ''0'' then eval_flags (flags OR FLAGS_ZEROPAD) format
      else if c = CHR ''-'' then eval_flags (flags OR FLAGS_LEFT) format
      else if c = CHR ''+'' then eval_flags (flags OR FLAGS_PLUS) format
      else if c = CHR '' '' then eval_flags (flags OR FLAGS_SPACE) format
      else if c = CHR ''#'' then eval_flags (flags OR FLAGS_HASH) format
      else (flags, c # format))"

text \<open>The width field: the flags, the width, and the format and arguments left.\<close>

definition eval_width :: "uint \<Rightarrow> string \<Rightarrow> va_list \<Rightarrow> error + uint \<times> uint \<times> string \<times> va_list"
  where
  "eval_width flags format va =
     (if is_digit (peek format)
      then (case atoi format of (width, format') \<Rightarrow> Inr (flags, width, format', va))
      else if peek format = CHR ''*''
      then (case va_arg_int va of
              Inl e \<Rightarrow> Inl e
            | Inr (w, va') \<Rightarrow>
                if w <s 0
                then (if w = - (2 ^ 31) then Inl Signed_overflow
                      else Inr (flags OR FLAGS_LEFT, - w, tl format, va'))
                else Inr (flags, w, tl format, va'))
      else Inr (flags, 0, format, va))"

text \<open>The precision field.\<close>

definition eval_precision :: "uint \<Rightarrow> string \<Rightarrow> va_list
    \<Rightarrow> error + uint \<times> uint \<times> string \<times> va_list" where
  "eval_precision flags format va =
     (if peek format = CHR ''.''
      then
        (if is_digit (peek (tl format))
         then (case atoi (tl format) of
                 (precision, format') \<Rightarrow> Inr (flags OR FLAGS_PRECISION, precision, format', va))
         else if peek (tl format) = CHR ''*''
         then (case va_arg_int va of
                 Inl e \<Rightarrow> Inl e
               | Inr (p, va') \<Rightarrow>
                   Inr (flags OR FLAGS_PRECISION, if 0 <s p then p else 0, tl (tl format), va'))
         else Inr (flags OR FLAGS_PRECISION, 0, tl format, va))
      else Inr (flags, 0, format, va))"

text \<open>
  The length field. \<open>ptrdiff_t\<close>, \<open>intmax_t\<close> and \<open>size_t\<close> have the size of \<open>long\<close>, so
  \<open>t\<close>, \<open>j\<close> and \<open>z\<close> set \<open>FLAGS_LONG\<close>.
\<close>

definition eval_length :: "uint \<Rightarrow> string \<Rightarrow> uint \<times> string" where
  "eval_length flags format =
     (if peek format = CHR ''l''
      then (if peek (tl format) = CHR ''l''
            then (flags OR FLAGS_LONG OR FLAGS_LONG_LONG, tl (tl format))
            else (flags OR FLAGS_LONG, tl format))
      else if peek format = CHR ''h''
      then (if peek (tl format) = CHR ''h''
            then (flags OR FLAGS_SHORT OR FLAGS_CHAR, tl (tl format))
            else (flags OR FLAGS_SHORT, tl format))
      else if peek format = CHR ''t'' \<or> peek format = CHR ''j'' \<or> peek format = CHR ''z''
      then (flags OR FLAGS_LONG, tl format)
      else (flags, format))"

text \<open>
  The integer conversions \<open>d i u x X o b\<close>; \<open>c\<close> is the conversion letter. The result is
  the sink, the index and the arguments left.
\<close>

definition eval_integer :: "'w out_fct_type \<Rightarrow> 'w \<Rightarrow> size_t \<Rightarrow> size_t \<Rightarrow> char \<Rightarrow> uint \<Rightarrow> uint
    \<Rightarrow> uint \<Rightarrow> va_list \<Rightarrow> error + ('w \<times> size_t) \<times> va_list" where
  "eval_integer out buffer idx maxlen c flags width precision va =
     (let base =
            (if c = CHR ''x'' \<or> c = CHR ''X'' then BASE_HEX
             else if c = CHR ''o'' then BASE_OCTAL
             else if c = CHR ''b'' then BASE_BINARY
             else BASE_DECIMAL);
          flags1 =
            (if c = CHR ''x'' \<or> c = CHR ''X'' \<or> c = CHR ''o'' \<or> c = CHR ''b'' then flags
             else flags AND NOT FLAGS_HASH);
          flags2 = (if c = CHR ''X'' then flags1 OR FLAGS_UPPERCASE else flags1);
          flags3 =
            (if c \<noteq> CHR ''i'' \<and> c \<noteq> CHR ''d''
             then flags2 AND NOT (FLAGS_PLUS OR FLAGS_SPACE) else flags2);
          flags4 =
            (if has_flag flags3 FLAGS_PRECISION then flags3 AND NOT FLAGS_ZEROPAD else flags3)
      in if c = CHR ''i'' \<or> c = CHR ''d'' then
           (if has_flag flags4 FLAGS_LONG_LONG then
              (case va_arg_long_long va of
                 Inl e \<Rightarrow> Inl e
               | Inr (v, va') \<Rightarrow>
                   Inr (ntoa out buffer idx maxlen (NTOA_ABS v) (v <s 0) base precision width
                          flags4, va'))
            else if has_flag flags4 FLAGS_LONG then
              (case va_arg_long va of
                 Inl e \<Rightarrow> Inl e
               | Inr (v, va') \<Rightarrow>
                   Inr (ntoa out buffer idx maxlen (NTOA_ABS v) (v <s 0) base precision width
                          flags4, va'))
            else
              (case va_arg_int va of
                 Inl e \<Rightarrow> Inl e
               | Inr (a, va') \<Rightarrow>
                   (let v = (if has_flag flags4 FLAGS_CHAR then scast (ucast a :: 8 word)
                             else if has_flag flags4 FLAGS_SHORT then scast (ucast a :: 16 word)
                             else a) :: uint
                    in Inr (ntoa out buffer idx maxlen (NTOA_ABS (scast v)) (v <s 0) base
                              precision width flags4, va'))))
         else
           (if has_flag flags4 FLAGS_LONG_LONG then
              (case va_arg_long_long va of
                 Inl e \<Rightarrow> Inl e
               | Inr (v, va') \<Rightarrow>
                   Inr (ntoa out buffer idx maxlen v False base precision width flags4, va'))
            else if has_flag flags4 FLAGS_LONG then
              (case va_arg_long va of
                 Inl e \<Rightarrow> Inl e
               | Inr (v, va') \<Rightarrow>
                   Inr (ntoa out buffer idx maxlen v False base precision width flags4, va'))
            else
              (case va_arg_int va of
                 Inl e \<Rightarrow> Inl e
               | Inr (a, va') \<Rightarrow>
                   (let v = (if has_flag flags4 FLAGS_CHAR then ucast (ucast a :: 8 word)
                             else if has_flag flags4 FLAGS_SHORT then ucast (ucast a :: 16 word)
                             else a) :: uint
                    in Inr (ntoa out buffer idx maxlen (ucast v) False base precision width
                              flags4, va')))))"

text \<open>\<open>while (l++ < width) out(' ', buffer, idx++, maxlen);\<close> with \<open>unsigned int l\<close>.\<close>

function pad_spaces :: "'w out_fct_type \<Rightarrow> 'w \<Rightarrow> size_t \<Rightarrow> size_t \<Rightarrow> uint \<Rightarrow> uint
    \<Rightarrow> 'w \<times> size_t" where
  "pad_spaces out buffer idx maxlen l width =
     (if l < width
      then pad_spaces out (out CHR '' '' buffer idx maxlen) (idx + 1) maxlen (l + 1) width
      else (buffer, idx))"
  by pat_completeness auto
termination
proof (relation "measure (\<lambda>(out, buffer, idx, maxlen, l, width). unat width - unat l)")
  show "wf (measure (\<lambda>(out :: 'w out_fct_type, buffer :: 'w, idx :: size_t, maxlen :: size_t,
      l :: uint, width :: uint). unat width - unat l))"
    by simp
next
  fix out :: "'w out_fct_type" and buffer :: 'w and idx maxlen :: size_t and l width :: uint
  assume lt: "l < width"
  then have "unat (l + 1) = Suc (unat l)"
    by (rule unat_succ_less)
  with lt show "((out, out CHR '' '' buffer idx maxlen, idx + 1, maxlen, l + 1, width),
      (out, buffer, idx, maxlen, l, width))
      \<in> measure (\<lambda>(out, buffer, idx, maxlen, l, width). unat width - unat l)"
    by (simp add: word_less_nat_alt)
qed

declare pad_spaces.simps [simp del]

text \<open>The conversion \<open>c\<close>.\<close>

definition eval_char :: "'w out_fct_type \<Rightarrow> 'w \<Rightarrow> size_t \<Rightarrow> size_t \<Rightarrow> uint \<Rightarrow> uint \<Rightarrow> va_list
    \<Rightarrow> error + ('w \<times> size_t) \<times> va_list" where
  "eval_char out buffer idx maxlen flags width va =
     (case (if \<not> has_flag flags FLAGS_LEFT then pad_spaces out buffer idx maxlen 1 width
            else (buffer, idx)) of
        (buffer1, idx1) \<Rightarrow>
          (case va_arg_int va of
             Inl e \<Rightarrow> Inl e
           | Inr (a, va') \<Rightarrow>
               Inr (if has_flag flags FLAGS_LEFT
                    then pad_spaces out (out (char_of (uint a)) buffer1 idx1 maxlen) (idx1 + 1)
                           maxlen 1 width
                    else (out (char_of (uint a)) buffer1 idx1 maxlen, idx1 + 1), va')))"

text \<open>
  \<open>while ((*p != 0) && (!(flags & FLAGS_PRECISION) || precision--)) out(*(p++), buffer,
  idx++, maxlen);\<close>
\<close>

fun out_string :: "'w out_fct_type \<Rightarrow> 'w \<Rightarrow> size_t \<Rightarrow> size_t \<Rightarrow> string \<Rightarrow> bool \<Rightarrow> uint
    \<Rightarrow> 'w \<times> size_t" where
  "out_string out buffer idx maxlen [] has_precision precision = (buffer, idx)"
| "out_string out buffer idx maxlen (ch # p) has_precision precision =
     (if ch \<noteq> CHR 0x00 \<and> (\<not> has_precision \<or> precision \<noteq> 0)
      then out_string out (out ch buffer idx maxlen) (idx + 1) maxlen p has_precision
             (precision - 1)
      else (buffer, idx))"

text \<open>The conversion \<open>s\<close>.\<close>

definition eval_string :: "'w out_fct_type \<Rightarrow> 'w \<Rightarrow> size_t \<Rightarrow> size_t \<Rightarrow> uint \<Rightarrow> uint \<Rightarrow> uint
    \<Rightarrow> va_list \<Rightarrow> error + ('w \<times> size_t) \<times> va_list" where
  "eval_string out buffer idx maxlen flags width precision va =
     (case va_arg_char_ptr va of
        Inl e \<Rightarrow> Inl e
      | Inr (None, va') \<Rightarrow> Inr (out_rev out buffer idx maxlen '')llun('' width flags, va')
      | Inr (Some p, va') \<Rightarrow>
          (let l0 = (of_nat (strnlen_s p (if precision \<noteq> 0 then ucast precision else - 1))
                      :: uint);
               l = (if has_flag flags FLAGS_PRECISION
                    then (if l0 < precision then l0 else precision) else l0)
           in case (if \<not> has_flag flags FLAGS_LEFT
                    then pad_spaces out buffer idx maxlen l width else (buffer, idx)) of
                (buffer1, idx1) \<Rightarrow>
                  (case out_string out buffer1 idx1 maxlen p (has_flag flags FLAGS_PRECISION)
                          precision of
                     (buffer2, idx2) \<Rightarrow>
                       Inr (if has_flag flags FLAGS_LEFT
                            then pad_spaces out buffer2 idx2 maxlen l width
                            else (buffer2, idx2), va'))))"

text \<open>
  The conversion \<open>p\<close>: \<open>sizeof(void*)\<close> is 8, so the width is 18, and \<open>uintptr_t\<close> has the
  size of \<open>long long\<close>, so the value is printed by the first call of \<open>_ntoa\<close>.
\<close>

definition eval_pointer :: "'w out_fct_type \<Rightarrow> 'w \<Rightarrow> size_t \<Rightarrow> size_t \<Rightarrow> uint \<Rightarrow> uint
    \<Rightarrow> va_list \<Rightarrow> error + ('w \<times> size_t) \<times> va_list" where
  "eval_pointer out buffer idx maxlen flags precision va =
     (let width = 8 * 2 + 2;
          flags' = flags OR FLAGS_ZEROPAD OR FLAGS_POINTER
      in case va_arg_void_ptr va of
           Inl e \<Rightarrow> Inl e
         | Inr (v, va') \<Rightarrow>
             if v = 0
             then Inr (out_rev out buffer idx maxlen '')lin('' width flags', va')
             else Inr (ntoa out buffer idx maxlen v False BASE_HEX precision width flags', va'))"

text \<open>The floating-point conversions \<open>f F e E g G\<close>.\<close>

definition eval_float :: "'w out_fct_type \<Rightarrow> 'w \<Rightarrow> size_t \<Rightarrow> size_t \<Rightarrow> char \<Rightarrow> uint \<Rightarrow> uint
    \<Rightarrow> uint \<Rightarrow> va_list \<Rightarrow> error + ('w \<times> size_t) \<times> va_list" where
  "eval_float out buffer idx maxlen c flags width precision va =
     (let flags1 = (if c = CHR ''g'' \<or> c = CHR ''G'' then flags OR FLAGS_ADAPT_EXP else flags);
          flags2 =
            (if c = CHR ''F'' \<or> c = CHR ''E'' \<or> c = CHR ''G''
             then flags1 OR FLAGS_UPPERCASE else flags1)
      in case va_arg_double va of
           Inl e \<Rightarrow> Inl e
         | Inr (v, va') \<Rightarrow>
             (case sprint_floating_point out buffer idx maxlen v precision width flags2
                     (c \<noteq> CHR ''f'' \<and> c \<noteq> CHR ''F'') of
                Inl e \<Rightarrow> Inl e
              | Inr r \<Rightarrow> Inr (r, va')))"

text \<open>
  The \<open>switch\<close> on the conversion letter. Every branch ends with \<open>format++\<close>; in the
  default branch the letter may be the terminating NUL, and the pointer then leaves the
  string.
\<close>

definition eval_specifier :: "'w out_fct_type \<Rightarrow> 'w \<Rightarrow> size_t \<Rightarrow> size_t \<Rightarrow> uint \<Rightarrow> uint
    \<Rightarrow> uint \<Rightarrow> string \<Rightarrow> va_list \<Rightarrow> error + ('w \<times> size_t) \<times> string \<times> va_list" where
  "eval_specifier out buffer idx maxlen flags width precision format va =
     (let c = peek format
      in if c \<in> set ''diuxXob'' then
           (case eval_integer out buffer idx maxlen c flags width precision va of
              Inl e \<Rightarrow> Inl e | Inr (r, va') \<Rightarrow> Inr (r, tl format, va'))
         else if c \<in> set ''fFeEgG'' then
           (case eval_float out buffer idx maxlen c flags width precision va of
              Inl e \<Rightarrow> Inl e | Inr (r, va') \<Rightarrow> Inr (r, tl format, va'))
         else if c = CHR ''c'' then
           (case eval_char out buffer idx maxlen flags width va of
              Inl e \<Rightarrow> Inl e | Inr (r, va') \<Rightarrow> Inr (r, tl format, va'))
         else if c = CHR ''s'' then
           (case eval_string out buffer idx maxlen flags width precision va of
              Inl e \<Rightarrow> Inl e | Inr (r, va') \<Rightarrow> Inr (r, tl format, va'))
         else if c = CHR ''p'' then
           (case eval_pointer out buffer idx maxlen flags precision va of
              Inl e \<Rightarrow> Inl e | Inr (r, va') \<Rightarrow> Inr (r, tl format, va'))
         else if c = CHR ''%'' then
           Inr ((out CHR ''%'' buffer idx maxlen, idx + 1), tl format, va)
         else if c = CHR 0x00 then Inl Format_overread
         else Inr ((out c buffer idx maxlen, idx + 1), tl format, va))"

text \<open>One \<open>%\<close> token; \<open>format\<close> is the format after the \<open>%\<close>.\<close>

definition eval_token :: "'w out_fct_type \<Rightarrow> 'w \<Rightarrow> size_t \<Rightarrow> size_t \<Rightarrow> string \<Rightarrow> va_list
    \<Rightarrow> error + ('w \<times> size_t) \<times> string \<times> va_list" where
  "eval_token out buffer idx maxlen format va =
     (case eval_flags 0 format of
        (flags0, format1) \<Rightarrow>
          (case eval_width flags0 format1 va of
             Inl e \<Rightarrow> Inl e
           | Inr (flags1, width, format2, va1) \<Rightarrow>
               (case eval_precision flags1 format2 va1 of
                  Inl e \<Rightarrow> Inl e
                | Inr (flags2, precision, format3, va2) \<Rightarrow>
                    (case eval_length flags2 format3 of
                       (flags3, format4) \<Rightarrow>
                         eval_specifier out buffer idx maxlen flags3 width precision format4
                           va2))))"

text \<open>No step of the interpreter moves the format pointer backwards.\<close>

lemma atoi_loop_length: "length (snd (atoi_loop i str)) \<le> length str"
  by (induction str arbitrary: i) (auto intro: le_SucI)

lemma eval_flags_length: "length (snd (eval_flags flags format)) \<le> length format"
  by (induction format arbitrary: flags) (auto intro: le_SucI)

lemma eval_width_length:
  assumes "eval_width flags format va = Inr (flags', width, format', va')"
  shows "length format' \<le> length format"
proof -
  have "length (snd (atoi format)) \<le> length format"
    unfolding atoi_def by (rule atoi_loop_length)
  with assms show ?thesis
    by (auto simp: eval_width_def split: if_splits prod.splits sum.splits)
qed

lemma eval_precision_length:
  assumes "eval_precision flags format va = Inr (flags', precision, format', va')"
  shows "length format' \<le> length format"
proof -
  have "length (snd (atoi (tl format))) \<le> length (tl format)"
    unfolding atoi_def by (rule atoi_loop_length)
  with assms show ?thesis
    by (auto simp: eval_precision_def split: if_splits prod.splits sum.splits)
qed

lemma eval_length_length: "length (snd (eval_length flags format)) \<le> length format"
  by (simp add: eval_length_def)

lemma eval_specifier_length:
  assumes "eval_specifier out buffer idx maxlen flags width precision format va
    = Inr (r, format', va')"
  shows "length format' \<le> length format"
  using assms
  by (auto simp: eval_specifier_def Let_def split: if_splits prod.splits sum.splits)

lemma eval_token_length:
  assumes "eval_token out buffer idx maxlen format va = Inr (r, format', va')"
  shows "length format' \<le> length format"
proof -
  obtain flags0 format1 where f: "eval_flags 0 format = (flags0, format1)"
    by (cases "eval_flags 0 format")
  from assms f obtain flags1 width format2 va1 where
    w: "eval_width flags0 format1 va = Inr (flags1, width, format2, va1)"
    by (auto simp: eval_token_def split: sum.splits)
  from assms f w obtain flags2 precision format3 va2 where
    p: "eval_precision flags1 format2 va1 = Inr (flags2, precision, format3, va2)"
    by (auto simp: eval_token_def split: sum.splits)
  obtain flags3 format4 where l: "eval_length flags2 format3 = (flags3, format4)"
    by (cases "eval_length flags2 format3")
  from assms f w p l have
    s: "eval_specifier out buffer idx maxlen flags3 width precision format4 va2
      = Inr (r, format', va')"
    by (simp add: eval_token_def)
  have "length format1 \<le> length format"
    using eval_flags_length [of 0 format] f by simp
  moreover have "length format2 \<le> length format1"
    using w by (rule eval_width_length)
  moreover have "length format3 \<le> length format2"
    using p by (rule eval_precision_length)
  moreover have "length format4 \<le> length format3"
    using eval_length_length [of flags2 format3] l by simp
  moreover have "length format' \<le> length format4"
    using s by (rule eval_specifier_length)
  ultimately show ?thesis by linarith
qed

text \<open>The \<open>while (*format)\<close> loop of \<open>_vsnprintf\<close>.\<close>

function vsnprintf_loop :: "'w out_fct_type \<Rightarrow> 'w \<Rightarrow> size_t \<Rightarrow> size_t \<Rightarrow> string \<Rightarrow> va_list
    \<Rightarrow> error + 'w \<times> size_t" where
  "vsnprintf_loop out buffer idx maxlen format va =
     (if peek format = CHR 0x00 then Inr (buffer, idx)
      else if peek format \<noteq> CHR ''%''
      then vsnprintf_loop out (out (peek format) buffer idx maxlen) (idx + 1) maxlen (tl format)
             va
      else (case eval_token out buffer idx maxlen (tl format) va of
              Inl e \<Rightarrow> Inl e
            | Inr ((buffer', idx'), format', va') \<Rightarrow>
                vsnprintf_loop out buffer' idx' maxlen format' va'))"
  by pat_completeness auto
termination
proof (relation "measure (\<lambda>(out, buffer, idx, maxlen, format, va). length format)")
  show "wf (measure (\<lambda>(out :: 'w out_fct_type, buffer :: 'w, idx :: size_t, maxlen :: size_t,
      format :: string, va :: va_list). length format))"
    by simp
next
  fix out :: "'w out_fct_type" and buffer :: 'w and idx maxlen :: size_t
    and format :: string and va :: va_list
  assume "peek format \<noteq> CHR 0x00"
  then have "format \<noteq> []"
    by (auto simp: peek_def)
  then show "((out, out (peek format) buffer idx maxlen, idx + 1, maxlen, tl format, va),
      (out, buffer, idx, maxlen, format, va))
      \<in> measure (\<lambda>(out, buffer, idx, maxlen, format, va). length format)"
    by simp
next
  fix out :: "'w out_fct_type" and buffer :: 'w and idx maxlen :: size_t
    and format :: string and va :: va_list and x2 x y format' va' buffer' idx'
  assume nz: "peek format \<noteq> CHR 0x00"
    and tok: "eval_token out buffer idx maxlen (tl format) va = Inr x2"
    and x2: "(x, y) = x2" and y: "(format', va') = y" and x: "(buffer', idx') = x"
  from nz have ne: "format \<noteq> []"
    by (auto simp: peek_def)
  from tok x2 y have "eval_token out buffer idx maxlen (tl format) va = Inr (x, format', va')"
    by simp
  then have "length format' \<le> length (tl format)"
    by (rule eval_token_length)
  with ne show "((out, buffer', idx', maxlen, format', va'), (out, buffer, idx, maxlen, format, va))
      \<in> measure (\<lambda>(out, buffer, idx, maxlen, format, va). length format)"
    by (cases format) simp_all
qed

declare vsnprintf_loop.simps [simp del]

text \<open>
  \<open>_vsnprintf\<close> on the object \<open>buffer\<close> points to: the loop, the termination character and
  the result \<open>(int)idx\<close>.
\<close>

definition vsnprintf_run :: "'w out_fct_type \<Rightarrow> 'w \<Rightarrow> size_t \<Rightarrow> string \<Rightarrow> va_list
    \<Rightarrow> error + 'w \<times> int" where
  "vsnprintf_run out buffer maxlen format va =
     (case vsnprintf_loop out buffer 0 maxlen format va of
        Inl e \<Rightarrow> Inl e
      | Inr (buffer', idx) \<Rightarrow>
          Inr (out CHR 0x00 buffer' (if idx < maxlen then idx else maxlen - 1) maxlen,
               sint (ucast idx :: 32 word)))"

text \<open>
  \<open>_vsnprintf\<close>: \<open>buffer\<close> is nothing for the \<open>NULL\<close> pointer, for which the null sink
  replaces \<open>out\<close>, and else the object pointed to.
\<close>

definition vsnprintf :: "'w out_fct_type \<Rightarrow> 'w option \<Rightarrow> size_t \<Rightarrow> string \<Rightarrow> va_list
    \<Rightarrow> error + 'w option \<times> int" where
  "vsnprintf out buffer maxlen format va =
     (case buffer of
        None \<Rightarrow>
          (case vsnprintf_run out_null () maxlen format va of
             Inl e \<Rightarrow> Inl e | Inr (u, ret) \<Rightarrow> Inr (None, ret))
      | Some b \<Rightarrow>
          (case vsnprintf_run out b maxlen format va of
             Inl e \<Rightarrow> Inl e | Inr (b', ret) \<Rightarrow> Inr (Some b', ret)))"

section \<open>Public entry points\<close>

text \<open>
  The variadic functions take their arguments as a list, which makes each of them equal to
  its \<open>va_list\<close> twin. \<open>(size_t)-1\<close> is the word \<open>- 1\<close>.
\<close>

definition utl_vsnprintf :: "char_buffer option \<Rightarrow> size_t \<Rightarrow> string \<Rightarrow> va_list
    \<Rightarrow> error + char_buffer option \<times> int" where
  "utl_vsnprintf buffer count format va = vsnprintf out_buffer buffer count format va"

definition utl_snprintf :: "char_buffer option \<Rightarrow> size_t \<Rightarrow> string \<Rightarrow> va_list
    \<Rightarrow> error + char_buffer option \<times> int" where
  "utl_snprintf buffer count format va = vsnprintf out_buffer buffer count format va"

definition utl_vsprintf :: "char_buffer option \<Rightarrow> string \<Rightarrow> va_list
    \<Rightarrow> error + char_buffer option \<times> int" where
  "utl_vsprintf buffer format va = vsnprintf out_buffer buffer (- 1) format va"

definition utl_sprintf :: "char_buffer option \<Rightarrow> string \<Rightarrow> va_list
    \<Rightarrow> error + char_buffer option \<times> int" where
  "utl_sprintf buffer format va = vsnprintf out_buffer buffer (- 1) format va"

text \<open>
  \<open>utl_printf\<close> and \<open>utl_vprintf\<close> pass a local one-character array, which \<open>_out_char\<close>
  ignores; the argument \<open>console\<close> is what \<open>__io_putchar\<close> has received so far.
\<close>

definition utl_vprintf :: "string \<Rightarrow> string \<Rightarrow> va_list \<Rightarrow> error + string \<times> int" where
  "utl_vprintf console format va = vsnprintf_run out_char console (- 1) format va"

definition utl_printf :: "string \<Rightarrow> string \<Rightarrow> va_list \<Rightarrow> error + string \<times> int" where
  "utl_printf console format va = vsnprintf_run out_char console (- 1) format va"

text \<open>
  \<open>utl_vfctprintf\<close> passes the address of its local wrapper, which is not \<open>NULL\<close>; the
  result is the state the callback's argument points to after the call.
\<close>

definition utl_vfctprintf :: "(char \<Rightarrow> 'a \<Rightarrow> 'a) \<Rightarrow> 'a \<Rightarrow> string \<Rightarrow> va_list \<Rightarrow> error + 'a \<times> int"
  where
  "utl_vfctprintf out a format va =
     (case vsnprintf_run out_fct \<lparr>fct = out, arg = a\<rparr> (- 1) format va of
        Inl e \<Rightarrow> Inl e | Inr (w, ret) \<Rightarrow> Inr (arg w, ret))"

definition utl_fctprintf :: "(char \<Rightarrow> 'a \<Rightarrow> 'a) \<Rightarrow> 'a \<Rightarrow> string \<Rightarrow> va_list \<Rightarrow> error + 'a \<times> int"
  where
  "utl_fctprintf out a format va = utl_vfctprintf out a format va"

text \<open>The logical output of a call: every character the interpreter hands to its sink.\<close>

definition logical_output :: "string \<Rightarrow> va_list \<Rightarrow> error + string" where
  "logical_output format va =
     (case vsnprintf_loop out_log [] 0 0 format va of
        Inl e \<Rightarrow> Inl e | Inr (cs, idx) \<Rightarrow> Inr cs)"

section \<open>Logical output\<close>

text \<open>The sink and the index after the characters \<open>cs\<close> have been handed over from \<open>idx\<close> on.\<close>

definition written :: "'w out_fct_type \<Rightarrow> 'w \<Rightarrow> size_t \<Rightarrow> size_t \<Rightarrow> string \<Rightarrow> 'w \<times> size_t" where
  "written out buffer idx maxlen cs = (emit out buffer idx maxlen cs, idx + of_nat (length cs))"

text \<open>The characters \<open>_out_rev\<close> writes: the buffer reversed, with the padding spaces before it
  or after it.\<close>

definition out_rev_text :: "string \<Rightarrow> uint \<Rightarrow> uint \<Rightarrow> string" where
  "out_rev_text buf width flags =
     (let pad = replicate (unat width - unat (of_nat (length buf) :: size_t)) CHR '' ''
      in if has_flag flags FLAGS_LEFT then rev buf @ pad
         else if has_flag flags FLAGS_ZEROPAD then rev buf
         else pad @ rev buf)"

text \<open>The result of a function that writes the characters \<open>cs\<close>, or fails before it writes.\<close>

definition deliver :: "'w out_fct_type \<Rightarrow> 'w \<Rightarrow> size_t \<Rightarrow> size_t \<Rightarrow> error + string
    \<Rightarrow> error + 'w \<times> size_t" where
  "deliver out buffer idx maxlen r =
     (case r of Inl e \<Rightarrow> Inl e | Inr cs \<Rightarrow> Inr (written out buffer idx maxlen cs))"

text \<open>The same, for a function that also returns the format and the arguments left.\<close>

definition deliver_with :: "'w out_fct_type \<Rightarrow> 'w \<Rightarrow> size_t \<Rightarrow> size_t \<Rightarrow> error + string \<times> 'r
    \<Rightarrow> error + ('w \<times> size_t) \<times> 'r" where
  "deliver_with out buffer idx maxlen r =
     (case r of Inl e \<Rightarrow> Inl e | Inr (cs, rest) \<Rightarrow> Inr (written out buffer idx maxlen cs, rest))"

text \<open>What the recording sink holds after a call.\<close>

definition logged :: "error + string \<times> size_t \<Rightarrow> error + string" where
  "logged r = (case r of Inl e \<Rightarrow> Inl e | Inr (cs, idx) \<Rightarrow> Inr cs)"

text \<open>The same, for a function that also returns the format and the arguments left.\<close>

definition logged_with :: "error + (string \<times> size_t) \<times> 'r \<Rightarrow> error + string \<times> 'r" where
  "logged_with r = (case r of Inl e \<Rightarrow> Inl e | Inr ((cs, idx), rest) \<Rightarrow> Inr (cs, rest))"

text \<open>The characters each function hands to its sink, read off the recording sink.\<close>

definition ntoa_text :: "size_t \<Rightarrow> bool \<Rightarrow> 8 word \<Rightarrow> uint \<Rightarrow> uint \<Rightarrow> uint \<Rightarrow> string" where
  "ntoa_text val negative base precision width flags =
     fst (ntoa out_log [] 0 0 val negative base precision width flags)"

definition sprint_broken_up_decimal_text :: "double_components \<Rightarrow> uint \<Rightarrow> uint \<Rightarrow> uint
    \<Rightarrow> string \<Rightarrow> string" where
  "sprint_broken_up_decimal_text num precision width flags buf =
     fst (sprint_broken_up_decimal num out_log [] 0 0 precision width flags buf)"

definition sprint_exponential_number_text :: "double \<Rightarrow> uint \<Rightarrow> uint \<Rightarrow> uint \<Rightarrow> string
    \<Rightarrow> error + string" where
  "sprint_exponential_number_text number precision width flags buf =
     logged (sprint_exponential_number out_log [] 0 0 number precision width flags buf)"

definition out_string_text :: "string \<Rightarrow> bool \<Rightarrow> uint \<Rightarrow> string" where
  "out_string_text p has_precision precision =
     fst (out_string out_log [] 0 0 p has_precision precision)"

definition sprint_floating_point_text :: "double \<Rightarrow> uint \<Rightarrow> uint \<Rightarrow> uint \<Rightarrow> bool
    \<Rightarrow> error + string" where
  "sprint_floating_point_text val precision width flags prefer_exponential =
     logged (sprint_floating_point out_log [] 0 0 val precision width flags prefer_exponential)"

definition eval_specifier_text :: "uint \<Rightarrow> uint \<Rightarrow> uint \<Rightarrow> string \<Rightarrow> va_list
    \<Rightarrow> error + string \<times> string \<times> va_list" where
  "eval_specifier_text flags width precision format va =
     logged_with (eval_specifier out_log [] 0 0 flags width precision format va)"

definition eval_token_text :: "string \<Rightarrow> va_list \<Rightarrow> error + string \<times> string \<times> va_list" where
  "eval_token_text format va = logged_with (eval_token out_log [] 0 0 format va)"

text \<open>A destination filled with a known character, for concrete runs.\<close>

definition hashes :: char_buffer where
  "hashes = (\<lambda>i. CHR ''#'')"

text \<open>
  What a run leaves in a destination, as the destination it started from with the bytes
  stored by the run written over it: \<open>m i\<close> is the byte stored at position \<open>i\<close>, if any.
\<close>

definition overwrite :: "char_buffer \<Rightarrow> (size_t \<Rightarrow> char option) \<Rightarrow> char_buffer" where
  "overwrite b m = (\<lambda>i. case m i of None \<Rightarrow> b i | Some c \<Rightarrow> c)"




section \<open>Every function writes its logical output, whatever the sink\<close>

lemma emit_append:
  "emit out b idx maxlen (xs @ ys) =
     emit out (emit out b idx maxlen xs) (idx + of_nat (length xs)) maxlen ys"
  by (induction xs arbitrary: b idx) (auto simp: algebra_simps)

lemma emit_log: "emit out_log w idx maxlen cs = w @ cs"
  by (induction cs arbitrary: w idx) (auto simp: out_log_def)

lemma emit_null: "emit out_null b idx maxlen cs = b"
  by (induction cs arbitrary: idx) (auto simp: out_null_def)

lemma out_rev_pad_emit:
  "out_rev_pad out b idx maxlen i width =
     (emit out b idx maxlen (replicate (unat width - unat i) CHR '' ''),
      idx + of_nat (unat width - unat i))"
proof (induction out b idx maxlen i width rule: out_rev_pad.induct)
  case (1 out buffer idx maxlen i width)
  show ?case
  proof (cases "i < width")
    case True
    then have s: "unat (i + 1) = Suc (unat i)" by (rule unat_succ_less)
    from True have "unat i < unat width" by (simp add: word_less_nat_alt)
    then have "unat width - unat i = Suc (unat width - Suc (unat i))" by simp
    with True s "1.IH" show ?thesis
      by (subst out_rev_pad.simps) (simp add: algebra_simps)
  next
    case False
    then have "unat width - unat i = 0" by (simp add: word_less_nat_alt)
    with False show ?thesis by (subst out_rev_pad.simps) simp
  qed
qed

lemma out_rev_buf_emit:
  "out_rev_buf out b idx maxlen buf = (emit out b idx maxlen (rev buf), idx + of_nat (length buf))"
proof (induction out b idx maxlen buf rule: out_rev_buf.induct)
  case (1 out buffer idx maxlen buf)
  show ?case
  proof (cases "buf = []")
    case True
    then show ?thesis by (subst out_rev_buf.simps) simp
  next
    case False
    then have r: "rev buf = last buf # rev (butlast buf)"
      by (metis append_butlast_last_id rev.simps(2) rev_rev_ident rev_swap rev_append
          append_Cons append_Nil)
    from False have l: "length buf = Suc (length (butlast buf))"
      by simp
    have "out_rev_buf out buffer idx maxlen buf
      = out_rev_buf out (out (last buf) buffer idx maxlen) (idx + 1) maxlen (butlast buf)"
      using False by (subst out_rev_buf.simps) simp
    also have "\<dots> = (emit out (out (last buf) buffer idx maxlen) (idx + 1) maxlen
        (rev (butlast buf)), idx + 1 + of_nat (length (butlast buf)))"
      using False by (rule "1.IH")
    also have "\<dots> = (emit out buffer idx maxlen (last buf # rev (butlast buf)),
        idx + of_nat (Suc (length (butlast buf))))"
      by (simp add: algebra_simps)
    finally show ?thesis
      by (simp only: r l)
  qed
qed

lemma out_pad_right_emit:
  "out_pad_right out b idx maxlen start_idx width =
     (emit out b idx maxlen (replicate (unat width - unat (idx - start_idx)) CHR '' ''),
      idx + of_nat (unat width - unat (idx - start_idx)))"
proof (induction out b idx maxlen start_idx width rule: out_pad_right.induct)
  case (1 out buffer idx maxlen start_idx width)
  show ?case
  proof (cases "idx - start_idx < width")
    case True
    then have "unat ((idx - start_idx) + 1) = Suc (unat (idx - start_idx))"
      by (rule unat_succ_less)
    moreover have "idx + 1 - start_idx = (idx - start_idx) + 1" by simp
    ultimately have s: "unat (idx + 1 - start_idx) = Suc (unat (idx - start_idx))"
      by (simp only:)
    from True have "unat (idx - start_idx) < unat width" by (simp add: word_less_nat_alt)
    then have "unat width - unat (idx - start_idx)
      = Suc (unat width - Suc (unat (idx - start_idx)))" by simp
    with True s "1.IH" show ?thesis
      by (subst out_pad_right.simps) (simp add: algebra_simps)
  next
    case False
    then have "unat width - unat (idx - start_idx) = 0" by (simp add: word_less_nat_alt)
    with False show ?thesis by (subst out_pad_right.simps) simp
  qed
qed

lemma pad_spaces_emit:
  "pad_spaces out b idx maxlen l width =
     (emit out b idx maxlen (replicate (unat width - unat l) CHR '' ''),
      idx + of_nat (unat width - unat l))"
proof (induction out b idx maxlen l width rule: pad_spaces.induct)
  case (1 out buffer idx maxlen l width)
  show ?case
  proof (cases "l < width")
    case True
    then have s: "unat (l + 1) = Suc (unat l)" by (rule unat_succ_less)
    from True have "unat l < unat width" by (simp add: word_less_nat_alt)
    then have "unat width - unat l = Suc (unat width - Suc (unat l))" by simp
    with True s "1.IH" show ?thesis
      by (subst pad_spaces.simps) (simp add: algebra_simps)
  next
    case False
    then have "unat width - unat l = 0" by (simp add: word_less_nat_alt)
    with False show ?thesis by (subst pad_spaces.simps) simp
  qed
qed

lemma written_then:
  "(case written out b idx maxlen xs of (b', idx') \<Rightarrow> written out b' idx' maxlen ys)
     = written out b idx maxlen (xs @ ys)"
  by (simp add: written_def emit_append algebra_simps)

lemma written_log: "written out_log w idx maxlen cs = (w @ cs, idx + of_nat (length cs))"
  by (simp add: written_def emit_log)

lemma written_one: "(out c b idx maxlen, idx + 1) = written out b idx maxlen [c]"
  by (simp add: written_def)

lemma written_nil: "(b, idx) = written out b idx maxlen []"
  by (simp add: written_def)

lemma unat_ucast_uint_size: "unat (ucast (w :: uint) :: size_t) = unat w"
proof -
  have "unat w < 2 ^ 32" using unsigned_less [of w] by simp
  then have "unat w < 2 ^ 64" by simp
  then show ?thesis
    by (simp add: unsigned_ucast_eq take_bit_nat_eq_self)
qed

lemma out_rev_emit:
  "out_rev out b idx maxlen buf width flags = written out b idx maxlen (out_rev_text buf width flags)"
  by (simp add: out_rev_def out_rev_text_def out_rev_buf_emit out_pad_right_emit out_rev_pad_emit
      emit_append unat_ucast_uint_size written_def Let_def algebra_simps)

lemma ntoa_emit:
  "ntoa out b idx maxlen val negative base precision width flags =
     written out b idx maxlen (ntoa_text val negative base precision width flags)"
  by (simp add: ntoa_text_def ntoa_def ntoa_format_def out_rev_emit written_log
      split: prod.splits)

lemma sprint_broken_up_decimal_emit:
  "sprint_broken_up_decimal num out b idx maxlen precision width flags buf =
     written out b idx maxlen (sprint_broken_up_decimal_text num precision width flags buf)"
  by (simp add: sprint_broken_up_decimal_text_def sprint_broken_up_decimal_def out_rev_emit
      written_log split: prod.splits)

lemma written_idx: "written out b idx maxlen cs = (b', idx') \<Longrightarrow> idx' = idx + of_nat (length cs)"
  by (auto simp: written_def)

lemma sprint_exponential_number_emit:
  "sprint_exponential_number out b idx maxlen number precision width flags buf =
     deliver out b idx maxlen (sprint_exponential_number_text number precision width flags buf)"
proof (cases "sprint_exponential_plan number precision width flags")
  case (Inl e)
  then show ?thesis
    by (simp add: sprint_exponential_number_text_def sprint_exponential_number_def deliver_def
        logged_def)
next
  case (Inr p)
  then show ?thesis
    by (simp add: sprint_exponential_number_text_def sprint_exponential_number_def deliver_def
        logged_def sprint_broken_up_decimal_emit ntoa_emit out_pad_right_emit written_def
        emit_log emit_append out_log_def algebra_simps)
qed

lemma out_log_apply: "out_log c w i m = w @ [c]"
  by (simp add: out_log_def)

lemma out_string_log:
  "out_string out_log w idx maxlen p hp prec =
     (w @ out_string_text p hp prec, idx + of_nat (length (out_string_text p hp prec)))"
proof (induction p arbitrary: w idx prec maxlen)
  case Nil
  then show ?case by (simp add: out_string_text_def)
next
  case (Cons ch p)
  show ?case
  proof (cases "ch \<noteq> CHR 0x00 \<and> (\<not> hp \<or> prec \<noteq> 0)")
    case True
    have "out_string out_log [] 0 0 (ch # p) hp prec = out_string out_log [ch] 1 0 p hp (prec - 1)"
      using True by (simp add: out_log_apply)
    also have "\<dots> = ([ch] @ out_string_text p hp (prec - 1),
        1 + of_nat (length (out_string_text p hp (prec - 1))))"
      by (rule Cons.IH)
    finally have t: "out_string_text (ch # p) hp prec = ch # out_string_text p hp (prec - 1)"
      by (simp add: out_string_text_def)
    have "out_string out_log w idx maxlen (ch # p) hp prec
      = out_string out_log (w @ [ch]) (idx + 1) maxlen p hp (prec - 1)"
      using True by (simp add: out_log_apply)
    also have "\<dots> = ((w @ [ch]) @ out_string_text p hp (prec - 1),
        idx + 1 + of_nat (length (out_string_text p hp (prec - 1))))"
      by (rule Cons.IH)
    finally show ?thesis
      by (simp add: t algebra_simps)
  next
    case False
    then show ?thesis by (auto simp: out_string_text_def)
  qed
qed

lemma out_string_text_Cons:
  "out_string_text (ch # p) hp prec =
     (if ch \<noteq> CHR 0x00 \<and> (\<not> hp \<or> prec \<noteq> 0) then ch # out_string_text p hp (prec - 1) else [])"
proof -
  have "out_string_text (ch # p) hp prec = fst (out_string out_log [] 0 0 (ch # p) hp prec)"
    by (simp only: out_string_text_def)
  also have "\<dots> = (if ch \<noteq> CHR 0x00 \<and> (\<not> hp \<or> prec \<noteq> 0)
      then fst (out_string out_log [ch] 1 0 p hp (prec - 1)) else [])"
    by (simp add: out_log_apply)
  finally show ?thesis
    by (simp add: out_string_log)
qed

lemma out_string_emit:
  "out_string out b idx maxlen p hp prec = written out b idx maxlen (out_string_text p hp prec)"
proof (induction p arbitrary: b idx prec)
  case Nil
  then show ?case by (simp add: out_string_text_def written_def)
next
  case (Cons ch p)
  then show ?case
    by (simp add: out_string_text_Cons written_def algebra_simps)
qed

lemma deliver_log: "deliver out_log [] 0 0 r = (case r of Inl e \<Rightarrow> Inl e | Inr cs \<Rightarrow> Inr (cs, of_nat (length cs)))"
  by (simp add: deliver_def written_log split: sum.splits)

lemma logged_deliver_log [simp]: "logged (deliver out_log [] 0 0 r) = r"
  by (simp add: logged_def deliver_log split: sum.splits)

lemma logged_written_log [simp]: "logged (Inr (written out_log [] 0 0 cs)) = Inr cs"
  by (simp add: logged_def written_log)

lemma deliver_Inr [simp]: "deliver out b idx maxlen (Inr cs) = Inr (written out b idx maxlen cs)"
  by (simp add: deliver_def)

lemma deliver_Inl [simp]: "deliver out b idx maxlen (Inl e) = Inl e"
  by (simp add: deliver_def)

lemma logged_Inl [simp]: "logged (Inl e) = Inl e"
  by (simp add: logged_def)

lemma sprint_decimal_number_emit:
  "sprint_decimal_number out b idx maxlen number precision width flags buf =
     deliver out b idx maxlen
       (case get_components number precision of
          Inl e \<Rightarrow> Inl e
        | Inr c \<Rightarrow> Inr (sprint_broken_up_decimal_text c precision width flags buf))"
  by (simp add: sprint_decimal_number_def sprint_broken_up_decimal_emit split: sum.splits)

lemma sprint_floating_point_emit:
  "sprint_floating_point out b idx maxlen val precision width flags prefer_exponential =
     deliver out b idx maxlen
       (sprint_floating_point_text val precision width flags prefer_exponential)"
  by (simp add: sprint_floating_point_text_def sprint_floating_point_def out_rev_emit
      sprint_exponential_number_emit sprint_decimal_number_emit split: prod.splits)

lemmas emit_simps = written_def emit_log emit_append deliver_with_def logged_with_def
  deliver_def logged_def out_log_apply

lemma eval_integer_emit:
  "eval_integer out b idx maxlen c flags width precision va =
     deliver_with out b idx maxlen
       (logged_with (eval_integer out_log [] 0 0 c flags width precision va))"
proof -
  define base where "base =
    (if c = CHR ''x'' \<or> c = CHR ''X'' then BASE_HEX
     else if c = CHR ''o'' then BASE_OCTAL
     else if c = CHR ''b'' then BASE_BINARY
     else BASE_DECIMAL)"
  define flags1 where "flags1 =
    (if c = CHR ''x'' \<or> c = CHR ''X'' \<or> c = CHR ''o'' \<or> c = CHR ''b'' then flags
     else flags AND NOT FLAGS_HASH)"
  define flags2 where "flags2 = (if c = CHR ''X'' then flags1 OR FLAGS_UPPERCASE else flags1)"
  define flags3 where "flags3 =
    (if c \<noteq> CHR ''i'' \<and> c \<noteq> CHR ''d''
     then flags2 AND NOT (FLAGS_PLUS OR FLAGS_SPACE) else flags2)"
  define flags4 where "flags4 =
    (if has_flag flags3 FLAGS_PRECISION then flags3 AND NOT FLAGS_ZEROPAD else flags3)"
  define pick :: "error + (size_t \<times> bool) \<times> va_list" where "pick =
    (if c = CHR ''i'' \<or> c = CHR ''d'' then
       (if has_flag flags4 FLAGS_LONG_LONG then
          (case va_arg_long_long va of
             Inl e \<Rightarrow> Inl e | Inr (v, va') \<Rightarrow> Inr ((NTOA_ABS v, v <s 0), va'))
        else if has_flag flags4 FLAGS_LONG then
          (case va_arg_long va of
             Inl e \<Rightarrow> Inl e | Inr (v, va') \<Rightarrow> Inr ((NTOA_ABS v, v <s 0), va'))
        else
          (case va_arg_int va of
             Inl e \<Rightarrow> Inl e
           | Inr (a, va') \<Rightarrow>
               (let v = (if has_flag flags4 FLAGS_CHAR then scast (ucast a :: 8 word)
                         else if has_flag flags4 FLAGS_SHORT then scast (ucast a :: 16 word)
                         else a) :: uint
                in Inr ((NTOA_ABS (scast v), v <s 0), va'))))
     else
       (if has_flag flags4 FLAGS_LONG_LONG then
          (case va_arg_long_long va of
             Inl e \<Rightarrow> Inl e | Inr (v, va') \<Rightarrow> Inr ((v, False), va'))
        else if has_flag flags4 FLAGS_LONG then
          (case va_arg_long va of
             Inl e \<Rightarrow> Inl e | Inr (v, va') \<Rightarrow> Inr ((v, False), va'))
        else
          (case va_arg_int va of
             Inl e \<Rightarrow> Inl e
           | Inr (a, va') \<Rightarrow>
               (let v = (if has_flag flags4 FLAGS_CHAR then ucast (ucast a :: 8 word)
                         else if has_flag flags4 FLAGS_SHORT then ucast (ucast a :: 16 word)
                         else a) :: uint
                in Inr ((ucast v, False), va')))))"
  have shape: "eval_integer o' w i m c flags width precision va =
      (case pick of
         Inl e \<Rightarrow> Inl e
       | Inr ((val, negative), va') \<Rightarrow>
           Inr (ntoa o' w i m val negative base precision width flags4, va'))"
    for o' :: "'x out_fct_type" and w i m
  proof -
    have "eval_integer o' w i m c flags width precision va =
      (if c = CHR ''i'' \<or> c = CHR ''d'' then
         (if has_flag flags4 FLAGS_LONG_LONG then
            (case va_arg_long_long va of
               Inl e \<Rightarrow> Inl e
             | Inr (v, va') \<Rightarrow>
                 Inr (ntoa o' w i m (NTOA_ABS v) (v <s 0) base precision width flags4, va'))
          else if has_flag flags4 FLAGS_LONG then
            (case va_arg_long va of
               Inl e \<Rightarrow> Inl e
             | Inr (v, va') \<Rightarrow>
                 Inr (ntoa o' w i m (NTOA_ABS v) (v <s 0) base precision width flags4, va'))
          else
            (case va_arg_int va of
               Inl e \<Rightarrow> Inl e
             | Inr (a, va') \<Rightarrow>
                 (let v = (if has_flag flags4 FLAGS_CHAR then scast (ucast a :: 8 word)
                           else if has_flag flags4 FLAGS_SHORT then scast (ucast a :: 16 word)
                           else a) :: uint
                  in Inr (ntoa o' w i m (NTOA_ABS (scast v)) (v <s 0) base precision width
                            flags4, va'))))
       else
         (if has_flag flags4 FLAGS_LONG_LONG then
            (case va_arg_long_long va of
               Inl e \<Rightarrow> Inl e
             | Inr (v, va') \<Rightarrow>
                 Inr (ntoa o' w i m v False base precision width flags4, va'))
          else if has_flag flags4 FLAGS_LONG then
            (case va_arg_long va of
               Inl e \<Rightarrow> Inl e
             | Inr (v, va') \<Rightarrow>
                 Inr (ntoa o' w i m v False base precision width flags4, va'))
          else
            (case va_arg_int va of
               Inl e \<Rightarrow> Inl e
             | Inr (a, va') \<Rightarrow>
                 (let v = (if has_flag flags4 FLAGS_CHAR then ucast (ucast a :: 8 word)
                           else if has_flag flags4 FLAGS_SHORT then ucast (ucast a :: 16 word)
                           else a) :: uint
                  in Inr (ntoa o' w i m (ucast v) False base precision width flags4, va')))))"
      unfolding eval_integer_def base_def flags1_def flags2_def flags3_def flags4_def
      by (simp only: Let_def)
    also have "\<dots> = (case pick of
         Inl e \<Rightarrow> Inl e
       | Inr ((val, negative), va') \<Rightarrow>
           Inr (ntoa o' w i m val negative base precision width flags4, va'))"
      unfolding pick_def
      by (simp only: Let_def if_distrib [of "case_sum _ _"] sum.case prod.case
          sum.case_distrib [of "case_sum _ _"] prod.case_distrib [of "case_sum _ _"])
    finally show ?thesis .
  qed
  show ?thesis
    by (cases pick) (auto simp: shape ntoa_emit emit_simps)
qed

lemma eval_char_emit:
  "eval_char out b idx maxlen flags width va =
     deliver_with out b idx maxlen (logged_with (eval_char out_log [] 0 0 flags width va))"
  by (simp add: eval_char_def pad_spaces_emit emit_simps algebra_simps
      split: sum.splits prod.splits)

lemma eval_string_emit:
  "eval_string out b idx maxlen flags width precision va =
     deliver_with out b idx maxlen
       (logged_with (eval_string out_log [] 0 0 flags width precision va))"
  by (simp add: eval_string_def pad_spaces_emit out_string_emit out_rev_emit emit_simps Let_def
      algebra_simps split: sum.splits prod.splits option.splits)

lemma eval_pointer_emit:
  "eval_pointer out b idx maxlen flags precision va =
     deliver_with out b idx maxlen
       (logged_with (eval_pointer out_log [] 0 0 flags precision va))"
  by (simp add: eval_pointer_def ntoa_emit out_rev_emit emit_simps Let_def
      split: sum.splits prod.splits)

lemma eval_float_emit:
  "eval_float out b idx maxlen c flags width precision va =
     deliver_with out b idx maxlen
       (logged_with (eval_float out_log [] 0 0 c flags width precision va))"
proof -
  define flags2 where "flags2 =
    (if c = CHR ''F'' \<or> c = CHR ''E'' \<or> c = CHR ''G''
     then (if c = CHR ''g'' \<or> c = CHR ''G'' then flags OR FLAGS_ADAPT_EXP else flags)
            OR FLAGS_UPPERCASE
     else (if c = CHR ''g'' \<or> c = CHR ''G'' then flags OR FLAGS_ADAPT_EXP else flags))"
  define pe where "pe = (c \<noteq> CHR ''f'' \<and> c \<noteq> CHR ''F'')"
  have unfold: "eval_float o' w i m c flags width precision va =
      (case va_arg_double va of
         Inl e \<Rightarrow> Inl e
       | Inr (v, va') \<Rightarrow>
           (case sprint_floating_point o' w i m v precision width flags2 pe of
              Inl e \<Rightarrow> Inl e
            | Inr r \<Rightarrow> Inr (r, va')))" for o' :: "'x out_fct_type" and w i m
    by (simp only: eval_float_def Let_def flags2_def pe_def)
  show ?thesis
  proof (cases "va_arg_double va")
    case (Inl e)
    then show ?thesis
      by (simp add: unfold emit_simps)
  next
    case (Inr r)
    obtain v va' where r: "r = (v, va')" by (cases r)
    show ?thesis
    proof (cases "sprint_floating_point_text v precision width flags2 pe")
      case (Inl e)
      with Inr r show ?thesis
        by (simp add: unfold sprint_floating_point_emit emit_simps)
    next
      case (Inr cs)
      with \<open>va_arg_double va = Inr r\<close> r show ?thesis
        by (simp add: unfold sprint_floating_point_emit emit_simps)
    qed
  qed
qed

lemma deliver_with_cases:
  "deliver_with out b idx maxlen (logged_with r) =
     (case r of Inl e \<Rightarrow> Inl e | Inr ((cs, n), rest) \<Rightarrow> Inr (written out b idx maxlen cs, rest))"
  by (simp add: deliver_with_def logged_with_def split: sum.splits prod.splits)

lemma lift_branch:
  assumes "x = deliver_with out b idx maxlen (logged_with y)"
  shows "(case x of Inl e \<Rightarrow> Inl e | Inr (r, va') \<Rightarrow> Inr (r, f, va')) =
    deliver_with out b idx maxlen
      (logged_with (case y of Inl e \<Rightarrow> Inl e | Inr (r, va') \<Rightarrow> Inr (r, f, va')))"
  unfolding assms
  by (cases y) (auto simp: deliver_with_def logged_with_def split: prod.splits)

lemma eval_specifier_emit:
  "eval_specifier out b idx maxlen flags width precision format va =
     deliver_with out b idx maxlen (eval_specifier_text flags width precision format va)"
proof -
  let ?c = "peek format"
  consider (int) "?c \<in> set ''diuxXob''"
    | (flt) "?c \<notin> set ''diuxXob''" "?c \<in> set ''fFeEgG''"
    | (chr) "?c \<notin> set ''diuxXob''" "?c \<notin> set ''fFeEgG''" "?c = CHR ''c''"
    | (str) "?c \<notin> set ''diuxXob''" "?c \<notin> set ''fFeEgG''" "?c \<noteq> CHR ''c''" "?c = CHR ''s''"
    | (ptr) "?c \<notin> set ''diuxXob''" "?c \<notin> set ''fFeEgG''" "?c \<noteq> CHR ''c''" "?c \<noteq> CHR ''s''"
        "?c = CHR ''p''"
    | (pct) "?c \<notin> set ''diuxXob''" "?c \<notin> set ''fFeEgG''" "?c \<noteq> CHR ''c''" "?c \<noteq> CHR ''s''"
        "?c \<noteq> CHR ''p''" "?c = CHR ''%''"
    | (nul) "?c \<notin> set ''diuxXob''" "?c \<notin> set ''fFeEgG''" "?c \<noteq> CHR ''c''" "?c \<noteq> CHR ''s''"
        "?c \<noteq> CHR ''p''" "?c \<noteq> CHR ''%''" "?c = CHR 0x00"
    | (other) "?c \<notin> set ''diuxXob''" "?c \<notin> set ''fFeEgG''" "?c \<noteq> CHR ''c''" "?c \<noteq> CHR ''s''"
        "?c \<noteq> CHR ''p''" "?c \<noteq> CHR ''%''" "?c \<noteq> CHR 0x00"
    by blast
  then show ?thesis
  proof cases
    case int
    have u: "eval_specifier o' w i m flags width precision format va =
        (case eval_integer o' w i m ?c flags width precision va of
           Inl e \<Rightarrow> Inl e | Inr (r, va') \<Rightarrow> Inr (r, tl format, va'))"
      for o' :: "'x out_fct_type" and w i m
      unfolding eval_specifier_def Let_def by (simp only: int if_True)
    show ?thesis
      unfolding eval_specifier_text_def
      by (simp only: u) (rule lift_branch, rule eval_integer_emit)
  next
    case flt
    have u: "eval_specifier o' w i m flags width precision format va =
        (case eval_float o' w i m ?c flags width precision va of
           Inl e \<Rightarrow> Inl e | Inr (r, va') \<Rightarrow> Inr (r, tl format, va'))"
      for o' :: "'x out_fct_type" and w i m
      unfolding eval_specifier_def Let_def using flt by (simp only: if_True if_False)
    show ?thesis
      unfolding eval_specifier_text_def
      by (simp only: u) (rule lift_branch, rule eval_float_emit)
  next
    case chr
    have u: "eval_specifier o' w i m flags width precision format va =
        (case eval_char o' w i m flags width va of
           Inl e \<Rightarrow> Inl e | Inr (r, va') \<Rightarrow> Inr (r, tl format, va'))"
      for o' :: "'x out_fct_type" and w i m
      unfolding eval_specifier_def Let_def
      by (simp only: chr(1,2) eqTrueI [OF chr(3)] if_True if_False)
    show ?thesis
      unfolding eval_specifier_text_def
      by (simp only: u) (rule lift_branch, rule eval_char_emit)
  next
    case str
    have u: "eval_specifier o' w i m flags width precision format va =
        (case eval_string o' w i m flags width precision va of
           Inl e \<Rightarrow> Inl e | Inr (r, va') \<Rightarrow> Inr (r, tl format, va'))"
      for o' :: "'x out_fct_type" and w i m
      unfolding eval_specifier_def Let_def
      by (simp only: str(1,2,3) eqTrueI [OF str(4)] if_True if_False)
    show ?thesis
      unfolding eval_specifier_text_def
      by (simp only: u) (rule lift_branch, rule eval_string_emit)
  next
    case ptr
    have u: "eval_specifier o' w i m flags width precision format va =
        (case eval_pointer o' w i m flags precision va of
           Inl e \<Rightarrow> Inl e | Inr (r, va') \<Rightarrow> Inr (r, tl format, va'))"
      for o' :: "'x out_fct_type" and w i m
      unfolding eval_specifier_def Let_def
      by (simp only: ptr(1,2,3,4) eqTrueI [OF ptr(5)] if_True if_False)
    show ?thesis
      unfolding eval_specifier_text_def
      by (simp only: u) (rule lift_branch, rule eval_pointer_emit)
  next
    case pct
    have u: "eval_specifier o' w i m flags width precision format va =
        Inr ((o' CHR ''%'' w i m, i + 1), tl format, va)"
      for o' :: "'x out_fct_type" and w i m
      unfolding eval_specifier_def Let_def
      by (simp only: pct(1,2,3,4,5) eqTrueI [OF pct(6)] if_True if_False)
    show ?thesis
      unfolding eval_specifier_text_def
      by (simp add: u deliver_with_def logged_with_def written_def out_log_apply)
  next
    case nul
    have u: "eval_specifier o' w i m flags width precision format va = Inl Format_overread"
      for o' :: "'x out_fct_type" and w i m
      unfolding eval_specifier_def Let_def
      by (simp only: nul(1,2,3,4,5,6) eqTrueI [OF nul(7)] if_True if_False)
    show ?thesis
      unfolding eval_specifier_text_def
      by (simp add: u deliver_with_def logged_with_def)
  next
    case other
    have u: "eval_specifier o' w i m flags width precision format va =
        Inr ((o' ?c w i m, i + 1), tl format, va)"
      for o' :: "'x out_fct_type" and w i m
      unfolding eval_specifier_def Let_def
      by (simp only: other if_False)
    show ?thesis
      unfolding eval_specifier_text_def
      by (simp add: u deliver_with_def logged_with_def written_def out_log_apply)
  qed
qed

lemma logged_with_deliver_log [simp]: "logged_with (deliver_with out_log [] 0 0 r) = r"
  by (simp add: logged_with_def deliver_with_def written_log split: sum.splits prod.splits)

lemma logged_with_Inl [simp]: "logged_with (Inl e) = Inl e"
  by (simp add: logged_with_def)

lemma deliver_with_Inl [simp]: "deliver_with out b idx maxlen (Inl e) = Inl e"
  by (simp add: deliver_with_def)

lemma eval_token_emit:
  "eval_token out b idx maxlen format va =
     deliver_with out b idx maxlen (eval_token_text format va)"
proof -
  obtain flags0 format1 where f: "eval_flags 0 format = (flags0, format1)"
    by (cases "eval_flags 0 format")
  show ?thesis
  proof (cases "eval_width flags0 format1 va")
    case (Inl e)
    with f show ?thesis
      by (simp add: eval_token_def eval_token_text_def)
  next
    case w: (Inr r1)
    obtain flags1 width format2 va1 where r1: "r1 = (flags1, width, format2, va1)"
      by (cases r1)
    show ?thesis
    proof (cases "eval_precision flags1 format2 va1")
      case (Inl e)
      with f w r1 show ?thesis
        by (simp add: eval_token_def eval_token_text_def)
    next
      case p: (Inr r2)
      obtain flags2 precision format3 va2 where r2: "r2 = (flags2, precision, format3, va2)"
        by (cases r2)
      obtain flags3 format4 where l: "eval_length flags2 format3 = (flags3, format4)"
        by (cases "eval_length flags2 format3")
      from f w r1 p r2 l show ?thesis
        by (simp add: eval_token_def eval_token_text_def eval_specifier_emit)
    qed
  qed
qed

lemma eval_token_text_length:
  assumes "eval_token_text format va = Inr (cs, format', va')"
  shows "length format' \<le> length format"
proof -
  from assms obtain n where "eval_token out_log [] 0 0 format va = Inr ((cs, n), format', va')"
    by (auto simp: eval_token_text_def logged_with_def split: sum.splits prod.splits)
  then show ?thesis
    by (rule eval_token_length)
qed

lemma vsnprintf_loop_step:
  assumes log: "\<And>f v w i. length f < length format \<Longrightarrow>
      vsnprintf_loop out_log w i 0 f v = deliver out_log w i 0 (logical_output f v)"
    and ih: "\<And>f v w i. length f < length format \<Longrightarrow>
      vsnprintf_loop out w i maxlen f v = deliver out w i maxlen (logical_output f v)"
  shows "vsnprintf_loop out b idx maxlen format va =
     deliver out b idx maxlen (logical_output format va)"
proof -
  have lo: "logical_output format va = logged (vsnprintf_loop out_log [] 0 0 format va)"
    by (simp add: logical_output_def logged_def)
  show ?thesis
  proof (cases "peek format = CHR 0x00")
    case True
    then show ?thesis
      by (simp add: lo vsnprintf_loop.simps [of _ _ _ _ format] logged_def written_def)
  next
    case nz: False
    then obtain c rest where fmt: "format = c # rest"
      by (cases format) (auto simp: peek_def)
    show ?thesis
    proof (cases "peek format \<noteq> CHR ''%''")
      case True
      have ih1: "vsnprintf_loop out (out c b idx maxlen) (idx + 1) maxlen rest va
        = deliver out (out c b idx maxlen) (idx + 1) maxlen (logical_output rest va)"
        using ih [of rest] fmt by simp
      have ih2: "vsnprintf_loop out_log [c] 1 0 rest va
        = deliver out_log [c] 1 0 (logical_output rest va)"
        using log [of rest] fmt by simp
      from nz True fmt have cz: "c \<noteq> CHR 0x00" and cp: "c \<noteq> CHR ''%''"
        by (simp_all add: peek_def)
      have s1: "vsnprintf_loop o' w i m format va
        = vsnprintf_loop o' (o' c w i m) (i + 1) m rest va"
        for o' :: "'x out_fct_type" and w i m
        unfolding fmt using cz cp by (subst vsnprintf_loop.simps) (simp add: peek_def)
      have l: "logical_output format va
        = (case logical_output rest va of Inl e \<Rightarrow> Inl e | Inr cs \<Rightarrow> Inr (c # cs))"
        by (simp add: lo s1 ih2 out_log_apply logged_def deliver_def written_log
            split: sum.splits)
      have "vsnprintf_loop out b idx maxlen format va
        = deliver out (out c b idx maxlen) (idx + 1) maxlen (logical_output rest va)"
        by (simp only: s1 ih1)
      then show ?thesis
        by (simp add: l deliver_def written_def algebra_simps split: sum.splits)
    next
      case False
      then have pc: "c = CHR ''%''" using fmt by (simp add: peek_def)
      have step: "vsnprintf_loop o' w i m format va =
          (case eval_token o' w i m rest va of
             Inl e \<Rightarrow> Inl e
           | Inr ((w', i'), format', va') \<Rightarrow> vsnprintf_loop o' w' i' m format' va')"
        for o' :: "'x out_fct_type" and w i m
        unfolding fmt pc by (subst vsnprintf_loop.simps) (simp add: peek_def)
      show ?thesis
      proof (cases "eval_token_text rest va")
        case (Inl e)
        then show ?thesis
          by (simp add: lo step eval_token_emit deliver_with_def logged_def)
      next
        case (Inr r)
        obtain cs format' va' where r: "r = (cs, format', va')" by (cases r)
        from Inr r have "length format' \<le> length rest"
          by (auto intro: eval_token_text_length)
        then have shorter: "length format' < length format" using fmt by simp
        have ih1: "vsnprintf_loop out w i maxlen format' va'
          = deliver out w i maxlen (logical_output format' va')" for w i
          using ih [OF shorter] .
        have ih2: "vsnprintf_loop out_log w i 0 format' va'
          = deliver out_log w i 0 (logical_output format' va')" for w i
          using log [OF shorter] .
        have l: "logical_output format va
          = (case logical_output format' va' of Inl e \<Rightarrow> Inl e | Inr cs' \<Rightarrow> Inr (cs @ cs'))"
          using Inr r
          by (simp add: lo step eval_token_emit deliver_with_def written_log ih2 logged_def
              deliver_def split: sum.splits)
        have "vsnprintf_loop out b idx maxlen format va
          = deliver out (emit out b idx maxlen cs) (idx + of_nat (length cs)) maxlen
              (logical_output format' va')"
          using Inr r
          by (simp add: step eval_token_emit deliver_with_def written_def ih1)
        then show ?thesis
          by (simp add: l deliver_def written_def emit_append algebra_simps split: sum.splits)
      qed
    qed
  qed
qed

lemma vsnprintf_loop_log:
  "vsnprintf_loop out_log w i 0 format va = deliver out_log w i 0 (logical_output format va)"
proof (induction "length format" arbitrary: w i format va rule: less_induct)
  case less
  show ?case
    by (rule vsnprintf_loop_step) (rule less, assumption)+
qed

lemma vsnprintf_loop_emit:
  "vsnprintf_loop out b idx maxlen format va =
     deliver out b idx maxlen (logical_output format va)"
proof (induction "length format" arbitrary: b idx format va rule: less_induct)
  case less
  show ?case
    by (rule vsnprintf_loop_step) (rule vsnprintf_loop_log, rule less, assumption)
qed

section \<open>What reaches the destination\<close>

lemma vsnprintf_run_emit:
  "vsnprintf_run out b maxlen format va =
     (case logical_output format va of
        Inl e \<Rightarrow> Inl e
      | Inr cs \<Rightarrow>
          Inr (out CHR 0x00 (emit out b 0 maxlen cs)
                 (if of_nat (length cs) < maxlen then of_nat (length cs) else maxlen - 1) maxlen,
               sint (ucast (of_nat (length cs) :: size_t) :: 32 word)))"
  by (simp add: vsnprintf_run_def vsnprintf_loop_emit deliver_def written_def split: sum.splits)

lemma vsnprintf_run_Inr:
  "logical_output format va = Inr cs \<Longrightarrow>
   vsnprintf_run out b maxlen format va =
     Inr (out CHR 0x00 (emit out b 0 maxlen cs)
            (if of_nat (length cs) < maxlen then of_nat (length cs) else maxlen - 1) maxlen,
          sint (ucast (of_nat (length cs) :: size_t) :: 32 word))"
  by (simp add: vsnprintf_run_emit)

lemma vsnprintf_run_Inl:
  "logical_output format va = Inl e \<Longrightarrow> vsnprintf_run out b maxlen format va = Inl e"
  by (simp add: vsnprintf_run_emit)

lemma out_buffer_apply:
  "out_buffer c b idx maxlen = (if idx < maxlen then b(idx := c) else b)"
  by (simp add: out_buffer_def)

lemma out_null_apply: "out_null c b idx maxlen = b"
  by (simp add: out_null_def)

lemma emit_buffer_nth:
  "unat idx + length cs < 2 ^ 64 \<Longrightarrow>
   emit out_buffer b idx maxlen cs i =
     (if idx \<le> i \<and> unat i < unat idx + length cs \<and> i < maxlen
      then cs ! (unat i - unat idx) else b i)"
proof (induction cs arbitrary: b idx)
  case Nil
  then show ?case by (auto simp: word_le_nat_alt)
next
  case (Cons c cs)
  from Cons.prems have "unat idx + unat (1 :: size_t) < 2 ^ LENGTH(64)"
    by simp
  then have "unat (idx + 1) = unat idx + unat (1 :: size_t)"
    by (simp only: unat_add_lem)
  then have s: "unat (idx + 1) = unat idx + 1"
    by simp
  from Cons.prems s have "unat (idx + 1) + length cs < 2 ^ 64"
    by simp
  then have ih: "emit out_buffer (out_buffer c b idx maxlen) (idx + 1) maxlen cs i =
     (if idx + 1 \<le> i \<and> unat i < unat (idx + 1) + length cs \<and> i < maxlen
      then cs ! (unat i - unat (idx + 1)) else out_buffer c b idx maxlen i)"
    by (rule Cons.IH)
  show ?case
  proof (cases "i = idx")
    case True
    show ?thesis
      unfolding emit.simps ih using True
      by (simp add: s out_buffer_apply word_le_nat_alt)
  next
    case False
    then have ne: "unat i \<noteq> unat idx"
      by (simp add: word_unat_eq_iff)
    show ?thesis
    proof (cases "idx \<le> i")
      case True
      with ne have gt: "unat idx < unat i"
        by (simp add: word_le_nat_alt)
      then have d: "unat i - unat idx = Suc (unat i - Suc (unat idx))"
        by simp
      show ?thesis
        unfolding emit.simps ih using d True gt False
        by (simp add: s out_buffer_apply word_le_nat_alt)
    next
      case nle: False
      then have n1: "\<not> idx + 1 \<le> i"
        by (simp add: word_le_nat_alt s)
      show ?thesis
        unfolding emit.simps ih using n1 nle False
        by (simp add: out_buffer_apply)
    qed
  qed
qed

lemma emit_buffer_beyond:
  "maxlen \<le> i \<Longrightarrow> emit out_buffer b idx maxlen cs i = b i"
proof (induction cs arbitrary: b idx)
  case Nil
  then show ?case by simp
next
  case (Cons c cs)
  have "emit out_buffer (out_buffer c b idx maxlen) (idx + 1) maxlen cs i
    = out_buffer c b idx maxlen i"
    using Cons.prems by (rule Cons.IH)
  then show ?case
    unfolding emit.simps using Cons.prems by (auto simp: out_buffer_apply)
qed

lemma emit_buffer_zero: "emit out_buffer b idx 0 cs = b"
  by (rule ext) (simp add: emit_buffer_beyond)

lemma unat_of_nat_size: "n < 2 ^ 64 \<Longrightarrow> unat (of_nat n :: size_t) = n"
  by (simp add: unat_of_nat take_bit_nat_eq_self)

lemma int_cast_small:
  assumes "n < 2 ^ 31"
  shows "sint (ucast (of_nat n :: size_t) :: 32 word) = int n"
proof -
  from assms have n64: "n < 2 ^ 64"
    by (rule less_trans) simp
  from assms have n32: "n < 2 ^ 32"
    by (rule less_trans) simp
  have "unat (of_nat n :: size_t) = n"
    using n64 by (simp add: unat_of_nat take_bit_nat_eq_self)
  then have "unat (ucast (of_nat n :: size_t) :: 32 word) = n"
    using n32 by (simp add: unsigned_ucast_eq take_bit_nat_eq_self)
  then have u: "uint (ucast (of_nat n :: size_t) :: 32 word) = int n"
    by (metis uint_nat)
  have "sint (ucast (of_nat n :: size_t) :: 32 word)
    = signed_take_bit 31 (uint (ucast (of_nat n :: size_t) :: 32 word))"
    by (simp add: sint_uint)
  also have "\<dots> = int n"
    unfolding u using assms by (simp add: signed_take_bit_int_eq_self)
  finally show ?thesis .
qed

lemma utl_vsnprintf_emit:
  "utl_vsnprintf (Some buffer) count format va =
     (case logical_output format va of
        Inl e \<Rightarrow> Inl e
      | Inr cs \<Rightarrow>
          Inr (Some (out_buffer CHR 0x00 (emit out_buffer buffer 0 count cs)
                 (if of_nat (length cs) < count then of_nat (length cs) else count - 1) count),
               sint (ucast (of_nat (length cs) :: size_t) :: 32 word)))"
  by (simp add: utl_vsnprintf_def vsnprintf_def vsnprintf_run_emit split: sum.splits)

lemma wide_char_token:
  "eval_token out_log [] 0 0 ''2147483648c'' [VA_int 65] =
     Inr ((replicate 2147483647 CHR '' '' @ ''A'', 2147483648), [], [])"
proof -
  have f: "eval_flags 0 ''2147483648c'' = (0, ''2147483648c'')"
    by code_simp
  have w: "eval_width 0 ''2147483648c'' [VA_int 65] = Inr (0, 2147483648, ''c'', [VA_int 65])"
    by code_simp
  have p: "eval_precision 0 ''c'' [VA_int 65] = Inr (0, 0, ''c'', [VA_int 65])"
    by code_simp
  have l: "eval_length 0 ''c'' = (0, ''c'')"
    by code_simp
  have nl: "\<not> has_flag 0 FLAGS_LEFT"
    by code_simp
  have a: "char_of (65 :: int) = CHR ''A''"
    by code_simp
  have c: "eval_char out_log [] 0 0 0 2147483648 [VA_int 65] =
     Inr ((replicate 2147483647 CHR '' '' @ ''A'', 2147483648), [])"
    by (simp add: eval_char_def nl pad_spaces_emit emit_log out_log_apply a)
  have s: "eval_specifier out_log [] 0 0 0 2147483648 0 ''c'' [VA_int 65] =
     Inr ((replicate 2147483647 CHR '' '' @ ''A'', 2147483648), [], [])"
    by (simp add: eval_specifier_def peek_def c)
  show ?thesis
    by (simp add: eval_token_def f w p l s)
qed

text \<open>A width of 2147483648 for \<open>%c\<close>: the logical output has 2147483648 characters.\<close>

lemma wide_char_output:
  "logical_output ''%2147483648c'' [VA_int 65] = Inr (replicate 2147483647 CHR '' '' @ ''A'')"
proof -
  have "vsnprintf_loop out_log [] 0 0 ''%2147483648c'' [VA_int 65]
    = vsnprintf_loop out_log (replicate 2147483647 CHR '' '' @ ''A'') 2147483648 0 [] []"
    by (subst vsnprintf_loop.simps) (simp add: peek_def wide_char_token)
  also have "\<dots> = Inr (replicate 2147483647 CHR '' '' @ ''A'', 2147483648)"
    by (subst vsnprintf_loop.simps) (simp add: peek_def)
  finally show ?thesis
    by (simp add: logical_output_def)
qed

lemma wide_char_cast: "sint (ucast (2147483648 :: size_t) :: 32 word) = - 2147483648"
  by simp

text \<open>The null sink, and a destination of capacity 0.\<close>

lemma vsnprintf_run_null:
  "vsnprintf_run out_null w count format va =
     (case logical_output format va of
        Inl e \<Rightarrow> Inl e
      | Inr cs \<Rightarrow> Inr (w, sint (ucast (of_nat (length cs) :: size_t) :: 32 word)))"
  by (simp add: vsnprintf_run_emit emit_null out_null_apply split: sum.splits)

lemma utl_vsnprintf_null:
  "utl_vsnprintf None count format va =
     (case logical_output format va of
        Inl e \<Rightarrow> Inl e
      | Inr cs \<Rightarrow> Inr (None, sint (ucast (of_nat (length cs) :: size_t) :: 32 word)))"
  by (simp add: utl_vsnprintf_def vsnprintf_def vsnprintf_run_null split: sum.splits)

lemma utl_vsnprintf_zero:
  "utl_vsnprintf (Some buffer) 0 format va =
     (case logical_output format va of
        Inl e \<Rightarrow> Inl e
      | Inr cs \<Rightarrow> Inr (Some buffer, sint (ucast (of_nat (length cs) :: size_t) :: 32 word)))"
  by (simp add: utl_vsnprintf_emit emit_buffer_zero out_buffer_apply split: sum.splits)

lemma utl_vsprintf_return:
  "map_sum id snd (utl_vsprintf (Some buffer) format va) =
     map_sum id (\<lambda>cs. sint (ucast (of_nat (length cs) :: size_t) :: 32 word))
       (logical_output format va)"
  by (cases "logical_output format va")
    (simp_all add: utl_vsprintf_def vsnprintf_def vsnprintf_run_emit)

text \<open>What each sink holds after a run depends on what it held before only as far as the run left it alone.\<close>

lemma overwrite_empty: "overwrite b (\<lambda>i. None) = b"
  by (simp add: overwrite_def)

lemma overwrite_twice:
  "overwrite (overwrite b m) n = overwrite b (\<lambda>i. case n i of None \<Rightarrow> m i | Some c \<Rightarrow> Some c)"
  by (rule ext) (simp add: overwrite_def split: option.splits)

lemma out_buffer_overwrite:
  "out_buffer c b idx maxlen = overwrite b (if idx < maxlen then [idx \<mapsto> c] else (\<lambda>i. None))"
  by (rule ext) (simp add: out_buffer_apply overwrite_def)

lemma emit_buffer_overwrite:
  "\<exists>m. \<forall>b. emit out_buffer b idx maxlen cs = overwrite b m"
proof (induction cs arbitrary: idx)
  case Nil
  define m :: "size_t \<Rightarrow> char option" where "m = (\<lambda>i. None)"
  have "\<forall>b. emit out_buffer b idx maxlen [] = overwrite b m"
    by (simp add: overwrite_empty m_def)
  then show ?case
    by (rule exI [of _ m])
next
  case (Cons c cs)
  from Cons [of "idx + 1"] obtain m where
    m: "\<And>b. emit out_buffer b (idx + 1) maxlen cs = overwrite b m"
    by blast
  define m' where "m' = (\<lambda>i. case m i of
         None \<Rightarrow> (if idx < maxlen then [idx \<mapsto> c] else (\<lambda>i. None)) i
       | Some c \<Rightarrow> Some c)"
  have "\<forall>b. emit out_buffer b idx maxlen (c # cs) = overwrite b m'"
    unfolding emit.simps m out_buffer_overwrite [of c] overwrite_twice m'_def by simp
  then show ?case
    by (rule exI [of _ m'])
qed

lemma emit_char: "emit out_char w idx maxlen cs = w @ filter (\<lambda>c. c \<noteq> CHR 0x00) cs"
  by (induction cs arbitrary: w idx) (simp_all add: out_char_def)

lemma emit_fct:
  "emit out_fct w idx maxlen cs
     = w\<lparr>arg := fold (fct w) (filter (\<lambda>c. c \<noteq> CHR 0x00) cs) (arg w)\<rparr>"
  by (induction cs arbitrary: w idx) (simp_all add: out_fct_def)

lemma vsnprintf_run_buffer:
  assumes "logical_output format va = Inr cs"
  shows "\<exists>m. \<forall>b. vsnprintf_run out_buffer b count format va
    = Inr (overwrite b m, sint (ucast (of_nat (length cs) :: size_t) :: 32 word))"
proof -
  obtain m where m: "\<And>b. emit out_buffer b 0 count cs = overwrite b m"
    using emit_buffer_overwrite [of 0 count cs] by blast
  define t where "t = (if of_nat (length cs) < count then of_nat (length cs) else count - 1)"
  define m' where "m' = (\<lambda>i. case (if t < count then [t \<mapsto> CHR 0x00] else (\<lambda>i. None)) i of
       None \<Rightarrow> m i | Some c \<Rightarrow> Some c)"
  have "\<forall>b. vsnprintf_run out_buffer b count format va
    = Inr (overwrite b m', sint (ucast (of_nat (length cs) :: size_t) :: 32 word))"
    unfolding vsnprintf_run_Inr [OF assms] m out_buffer_overwrite [of "CHR 0x00"] overwrite_twice
      m'_def t_def by simp
  then show ?thesis
    by (rule exI [of _ m'])
qed

lemma vsnprintf_run_char:
  assumes "logical_output format va = Inr cs"
  shows "vsnprintf_run out_char w count format va
    = Inr (w @ filter (\<lambda>c. c \<noteq> CHR 0x00) cs,
           sint (ucast (of_nat (length cs) :: size_t) :: 32 word))"
  unfolding vsnprintf_run_Inr [OF assms] emit_char by (simp add: out_char_def)

lemma vsnprintf_run_fct:
  assumes "logical_output format va = Inr cs"
  shows "vsnprintf_run out_fct w count format va
    = Inr (w\<lparr>arg := fold (fct w) (filter (\<lambda>c. c \<noteq> CHR 0x00) cs) (arg w)\<rparr>,
           sint (ucast (of_nat (length cs) :: size_t) :: 32 word))"
  unfolding vsnprintf_run_Inr [OF assms] emit_fct by (simp add: out_fct_def)

lemma overwrite_known:
  assumes "overwrite b m = b'" and "b' i \<noteq> b i"
  shows "overwrite c m i = b' i"
proof (cases "m i")
  case None
  with assms show ?thesis
    by (auto simp: overwrite_def)
next
  case (Some x)
  with assms(1) [symmetric] show ?thesis
    by (simp add: overwrite_def)
qed

section \<open>Single tokens\<close>

lemma vsnprintf_loop_percent:
  "eval_token out buffer idx maxlen format va = Inr ((buffer', idx'), format', va') \<Longrightarrow>
   vsnprintf_loop out buffer idx maxlen (CHR ''%'' # format) va
     = vsnprintf_loop out buffer' idx' maxlen format' va'"
  by (subst vsnprintf_loop.simps) (simp add: peek_def)

lemma logical_output_after:
  "logged (vsnprintf_loop out_log w idx maxlen format va)
     = map_sum id ((@) w) (logical_output format va)"
  by (cases "logical_output format va")
    (simp_all add: vsnprintf_loop_emit deliver_def written_def emit_log logged_def)

lemma logical_output_logged:
  "logical_output format va = logged (vsnprintf_loop out_log [] 0 0 format va)"
  by (simp add: logical_output_def logged_def)

lemma logical_output_percent:
  assumes "eval_token out_log [] 0 0 format va = Inr ((w, idx), format', va')"
  shows "logical_output (CHR ''%'' # format) va = map_sum id ((@) w) (logical_output format' va')"
proof -
  from assms have "vsnprintf_loop out_log [] 0 0 (CHR ''%'' # format) va
      = vsnprintf_loop out_log w idx 0 format' va'"
    by (rule vsnprintf_loop_percent)
  then show ?thesis
    by (simp only: logical_output_logged [of "CHR ''%'' # format"] logical_output_after)
qed

lemma has_flag_zero: "\<not> has_flag 0 f"
  by (simp add: has_flag_def)

lemma has_flag_or:
  "has_flag (a OR b) f \<longleftrightarrow> has_flag a f \<or> has_flag b f"
  by (simp add: has_flag_def bit.conj_disj_distrib2 or_eq_0_iff)

lemma pointer_flags:
  "has_flag (flags OR FLAGS_ZEROPAD OR FLAGS_POINTER) FLAGS_LEFT = has_flag flags FLAGS_LEFT"
  "has_flag (flags OR FLAGS_ZEROPAD OR FLAGS_POINTER) FLAGS_ZEROPAD"
proof -
  have "\<not> has_flag FLAGS_ZEROPAD FLAGS_LEFT" "\<not> has_flag FLAGS_POINTER FLAGS_LEFT"
    "has_flag FLAGS_ZEROPAD FLAGS_ZEROPAD"
    by code_simp+
  then show "has_flag (flags OR FLAGS_ZEROPAD OR FLAGS_POINTER) FLAGS_LEFT
      = has_flag flags FLAGS_LEFT"
    "has_flag (flags OR FLAGS_ZEROPAD OR FLAGS_POINTER) FLAGS_ZEROPAD"
    by (simp_all add: has_flag_or)
qed

lemma eval_token_plain:
  assumes "\<not> is_digit c" "c \<notin> set ''-+ #*.lhtjz''"
  shows "eval_token out buffer idx maxlen (c # rest) va
    = eval_specifier out buffer idx maxlen 0 0 0 (c # rest) va"
proof -
  have "is_digit CHR ''0''"
    by code_simp
  with assms(1) have z: "c \<noteq> CHR ''0''"
    by blast
  with assms have f: "eval_flags 0 (c # rest) = (0, c # rest)"
    by simp
  from assms have w: "eval_width 0 (c # rest) va = Inr (0, 0, c # rest, va)"
    by (simp add: eval_width_def peek_def)
  from assms have p: "eval_precision 0 (c # rest) va = Inr (0, 0, c # rest, va)"
    by (simp add: eval_precision_def peek_def)
  from assms have l: "eval_length 0 (c # rest) = (0, c # rest)"
    by (simp add: eval_length_def peek_def)
  show ?thesis
    unfolding eval_token_def
    by (simp only: f w p l prod.case sum.case)
qed

lemma eval_token_no_fields:
  assumes "\<not> is_digit c" "c \<notin> set ''-+ #*.''"
  shows "eval_token out buffer idx maxlen (c # rest) va
    = (case eval_length 0 (c # rest) of
         (flags, format') \<Rightarrow> eval_specifier out buffer idx maxlen flags 0 0 format' va)"
proof -
  have "is_digit CHR ''0''"
    by code_simp
  with assms(1) have z: "c \<noteq> CHR ''0''"
    by blast
  with assms have f: "eval_flags 0 (c # rest) = (0, c # rest)"
    by simp
  from assms have w: "eval_width 0 (c # rest) va = Inr (0, 0, c # rest, va)"
    by (simp add: eval_width_def peek_def)
  from assms have p: "eval_precision 0 (c # rest) va = Inr (0, 0, c # rest, va)"
    by (simp add: eval_precision_def peek_def)
  show ?thesis
    unfolding eval_token_def
    by (simp only: f w p prod.case sum.case)
qed

lemma eval_specifier_default:
  assumes "c \<notin> set ''diuxXobfFeEgGcsp%''" and "c \<noteq> CHR 0x00"
  shows "eval_specifier out buffer idx maxlen flags width precision (c # rest) va
           = Inr ((out c buffer idx maxlen, idx + 1), rest, va)"
proof -
  from assms have a: "c \<notin> set ''diuxXob''" "c \<notin> set ''fFeEgG''" "c \<noteq> CHR ''c''"
    "c \<noteq> CHR ''s''" "c \<noteq> CHR ''p''" "c \<noteq> CHR ''%''"
    by auto
  show ?thesis
    unfolding eval_specifier_def Let_def peek_def list.case
    by (simp only: a assms(2) if_False list.sel)
qed

lemma eval_length_none:
  "c \<notin> set ''lhtjz'' \<Longrightarrow> eval_length flags (c # rest) = (flags, c # rest)"
  by (simp add: eval_length_def peek_def)

text \<open>The \<open>NULL\<close> branches of the conversions \<open>s\<close> and \<open>p\<close>.\<close>

lemma eval_string_null:
  "eval_string out buffer idx maxlen flags width precision (VA_char_ptr None # va)
     = Inr (written out buffer idx maxlen
             (if has_flag flags FLAGS_LEFT
              then ''(null)'' @ replicate (unat width - 6) CHR '' ''
              else if has_flag flags FLAGS_ZEROPAD then ''(null)''
              else replicate (unat width - 6) CHR '' '' @ ''(null)''), va)"
  by (simp add: eval_string_def out_rev_emit out_rev_text_def)

lemma eval_pointer_null:
  "eval_pointer out buffer idx maxlen flags precision (VA_void_ptr 0 # va)
     = Inr (written out buffer idx maxlen
             (if has_flag flags FLAGS_LEFT then ''(nil)'' @ replicate 13 CHR '' ''
              else ''(nil)''), va)"
  by (simp add: eval_pointer_def out_rev_emit out_rev_text_def pointer_flags)

section \<open>Signed decimal conversions\<close>



















section \<open>The order of doubles, and parity\<close>







section \<open>Claims settled by running the formatter\<close>

text \<open>
  C5. The double nearest to 0.005, formatted with \<open>%.2f\<close>, gives exactly the text
  \<open>0.01\<close>: the scaled remainder is the exact tie 0.5 over a truncated fractional part 0,
  and \<open>get_components\<close> rounds that up to 1.
\<close>

theorem format_0_005_precision_2:
  "logical_output ''%.2f'' [VA_double (d_lit 5 1000)] = Inr ''0.01''
   \<and> get_components (d_lit 5 1000) 2
       = Inr \<lparr>integral = 0, fractional = 1, is_negative = False\<rparr>
   \<and> utl_printf [] ''%.2f'' [VA_double (d_lit 5 1000)] = Inr (''0.01'', 4)"
  by code_simp

text \<open>
  C3. The claim is that after \<open>get_components\<close> the fractional part is below
  \<open>10 ^ precision\<close>, a carry going to the integral part. The code checks the carry only
  in its branch \<open>remainder > 0.5\<close>; in the branch of the exact tie it increments an odd
  fractional part without the check. For the double nearest to 0.95 at precision 1 the
  scaled value is exactly 9.5, so the fractional part becomes 10 and the integral part
  stays 0, and \<open>%.1f\<close> prints 32 characters of zero padding instead of \<open>1.0\<close>.
\<close>

theorem get_components_tie_without_carry:
  "get_components (d_lit 95 100) 1
     = Inr \<lparr>integral = 0, fractional = 10, is_negative = False\<rparr>
   \<and> logical_output ''%.1f'' [VA_double (d_lit 95 100)]
       = Inr ''00000000000000000000000000000010''"
  by code_simp

text \<open>
  C6. With the default precision \<open>%g\<close> prints 100000.0 as \<open>100000\<close>, as claimed. For
  1000000.0 the claim is \<open>1e+06\<close>; the estimate of the decimal exponent comes out as 5
  (the computed power of ten is a little above 1000000, and the correction step lowers the
  exponent), the formatter falls back to fixed notation, and prints \<open>1000000\<close>.
\<close>

theorem format_g_100000_and_1000000:
  "logical_output ''%g'' [VA_double (d_lit 100000 1)] = Inr ''100000''
   \<and> logical_output ''%g'' [VA_double (d_lit 1000000 1)] = Inr ''1000000''
   \<and> map_sum id fst (estimate_exp10 (d_lit 1000000 1)) = Inr 5"
  by code_simp

section \<open>Claims about the destination\<close>

text \<open>
  C1. The claim is that the bounded-buffer entry point drops every character at a position
  at or beyond the capacity and returns the full logical length. The return statement is
  \<open>return (int)idx\<close>: the length is counted in a \<open>size_t\<close> and cast to \<open>int\<close>, so a
  logical output of 2147483648 characters (a width of 2147483648 for \<open>%c\<close>) returns
  \<open>-2147483648\<close>.
\<close>

theorem return_value_is_cast_to_int:
  "map_sum id length (logical_output ''%2147483648c'' [VA_int 65]) = Inr 2147483648
   \<and> map_sum id snd (utl_vsnprintf (Some hashes) 4 ''%2147483648c'' [VA_int 65])
       = Inr (- 2147483648)"
  by (simp add: wide_char_output utl_vsnprintf_emit wide_char_cast)

text \<open>
  C1, amended. Whenever \<open>utl_vsnprintf\<close> (and \<open>utl_snprintf\<close>, which is the same call)
  returns on a destination of capacity \<open>count\<close>, no position at or beyond \<open>count\<close> is
  written, so with capacity 0 the destination is left as it was, without a terminator. The
  return value is the length of the logical output \<open>cs\<close> cast to \<open>int\<close>, which is the
  length itself when it is below \<open>2 ^ 31\<close>. In that case the positions below \<open>count\<close>
  hold the first \<open>min (length cs) (count - 1)\<close> characters of \<open>cs\<close>, then the terminator,
  and beyond the terminator what they held before.
\<close>

theorem bounded_buffer_truncation:
  assumes call: "utl_vsnprintf (Some buffer) count format va = Inr (r, ret)"
  shows "\<exists>cs buffer'. logical_output format va = Inr cs \<and> r = Some buffer'
     \<and> utl_snprintf (Some buffer) count format va = Inr (r, ret)
     \<and> (\<forall>i. count \<le> i \<longrightarrow> buffer' i = buffer i)
     \<and> (count = 0 \<longrightarrow> buffer' = buffer)
     \<and> ret = sint (ucast (of_nat (length cs) :: size_t) :: 32 word)
     \<and> (length cs < 2 ^ 31 \<longrightarrow>
          ret = int (length cs)
          \<and> (\<forall>i. i < count \<longrightarrow> buffer' i =
                (if unat i = min (length cs) (unat count - 1) then CHR 0x00
                 else if unat i < length cs then cs ! unat i else buffer i)))"
proof -
  from call obtain cs where lo: "logical_output format va = Inr cs"
    by (cases "logical_output format va") (simp_all add: utl_vsnprintf_emit)
  define t where "t = (if of_nat (length cs) < count then of_nat (length cs) else count - 1)"
  define buffer' where
    "buffer' = out_buffer CHR 0x00 (emit out_buffer buffer 0 count cs) t count"
  from call lo have r: "r = Some buffer'"
    and ret: "ret = sint (ucast (of_nat (length cs) :: size_t) :: 32 word)"
    by (simp_all add: utl_vsnprintf_emit buffer'_def t_def)
  have twin: "utl_snprintf (Some buffer) count format va = Inr (r, ret)"
    using call by (simp add: utl_snprintf_def utl_vsnprintf_def)
  have beyond: "buffer' i = buffer i" if "count \<le> i" for i
  proof -
    from that have "\<not> i < count" by simp
    then have "buffer' i = emit out_buffer buffer 0 count cs i"
      by (auto simp: buffer'_def out_buffer_apply)
    with that show ?thesis by (simp add: emit_buffer_beyond)
  qed
  have zero: "buffer' = buffer" if "count = 0"
    using that by (simp add: buffer'_def emit_buffer_zero out_buffer_apply)
  have small: "ret = int (length cs)
      \<and> (\<forall>i. i < count \<longrightarrow> buffer' i =
            (if unat i = min (length cs) (unat count - 1) then CHR 0x00
             else if unat i < length cs then cs ! unat i else buffer i))"
    if len: "length cs < 2 ^ 31"
  proof -
    from len have len64: "length cs < 2 ^ 64"
      by (rule less_trans) simp
    then have ul: "unat (of_nat (length cs) :: size_t) = length cs"
      by (rule unat_of_nat_size)
    have content: "buffer' i =
        (if unat i = min (length cs) (unat count - 1) then CHR 0x00
         else if unat i < length cs then cs ! unat i else buffer i)"
      if i: "i < count" for i
    proof -
      from i have ic: "unat i < unat count" by (simp add: word_less_nat_alt)
      then have c0: "count \<noteq> 0" by auto
      then have uc: "unat (count - 1) = unat count - 1"
        by (simp add: unat_minus_one)
      have ut: "unat t = min (length cs) (unat count - 1)"
        using ic by (auto simp: t_def word_less_nat_alt ul uc)
      have tc: "t < count"
        using ic by (auto simp: t_def word_less_nat_alt ul uc)
      have e: "emit out_buffer buffer 0 count cs i
        = (if unat i < length cs then cs ! unat i else buffer i)"
        using len64 i by (simp add: emit_buffer_nth)
      have "i = t \<longleftrightarrow> unat i = min (length cs) (unat count - 1)"
        using ut by (auto simp: word_unat_eq_iff)
      with tc e show ?thesis
        by (auto simp: buffer'_def out_buffer_apply)
    qed
    from len ret have "ret = int (length cs)"
      by (simp add: int_cast_small)
    with content show ?thesis by blast
  qed
  from lo r twin beyond zero ret small show ?thesis by blast
qed

text \<open>
  The instance of the claim: \<open>hello\<close> formatted with \<open>%s\<close> into a destination of 4 bytes
  returns 5 and stores \<open>hel\<close>, the terminator, and nothing else; into a destination of
  capacity 0 it returns 5 and stores nothing.
\<close>

theorem bounded_buffer_truncation_witness:
  "(\<exists>buffer'. utl_vsnprintf (Some hashes) 4 ''%s'' [VA_char_ptr (Some ''hello'')]
       = Inr (Some buffer', 5)
     \<and> map buffer' [0, 1, 2, 3, 4, 5]
       = [CHR ''h'', CHR ''e'', CHR ''l'', CHR 0x00, CHR ''#'', CHR ''#''])
   \<and> utl_vsnprintf (Some hashes) 0 ''%s'' [VA_char_ptr (Some ''hello'')]
       = Inr (Some hashes, 5)"
proof -
  let ?va = "[VA_char_ptr (Some ''hello'')]"
  have lo: "logical_output ''%s'' ?va = Inr ''hello''"
    by code_simp
  then obtain r ret where call: "utl_vsnprintf (Some hashes) 4 ''%s'' ?va = Inr (r, ret)"
    by (simp add: utl_vsnprintf_emit)
  from bounded_buffer_truncation [OF call] lo obtain buffer' where r: "r = Some buffer'"
    and beyond: "\<forall>i. 4 \<le> i \<longrightarrow> buffer' i = hashes i"
    and small: "length ''hello'' < (2 :: nat) ^ 31 \<longrightarrow>
          ret = int (length ''hello'')
          \<and> (\<forall>i. i < 4 \<longrightarrow> buffer' i =
                (if unat i = min (length ''hello'') (unat (4 :: size_t) - 1) then CHR 0x00
                 else if unat i < length ''hello'' then ''hello'' ! unat i else hashes i))"
    by auto
  from small have ret: "ret = 5"
    and inside: "\<forall>i. i < 4 \<longrightarrow> buffer' i =
                (if unat i = min (length ''hello'') (unat (4 :: size_t) - 1) then CHR 0x00
                 else if unat i < length ''hello'' then ''hello'' ! unat i else hashes i)"
    by simp_all
  have "buffer' 0 = CHR ''h''" "buffer' 1 = CHR ''e''" "buffer' 2 = CHR ''l''"
    "buffer' 3 = CHR 0x00"
    using inside by simp_all
  moreover have "buffer' 4 = CHR ''#''" "buffer' 5 = CHR ''#''"
    using beyond by (simp_all add: hashes_def)
  ultimately have four: "\<exists>buffer'. utl_vsnprintf (Some hashes) 4 ''%s'' ?va
       = Inr (Some buffer', 5)
     \<and> map buffer' [0, 1, 2, 3, 4, 5]
       = [CHR ''h'', CHR ''e'', CHR ''l'', CHR 0x00, CHR ''#'', CHR ''#'']"
    using call r ret by simp
  from lo obtain r0 ret0 where call0: "utl_vsnprintf (Some hashes) 0 ''%s'' ?va = Inr (r0, ret0)"
    by (simp add: utl_vsnprintf_emit)
  from bounded_buffer_truncation [OF call0] lo obtain b0 where r0: "r0 = Some b0"
    and none: "(0 :: size_t) = 0 \<longrightarrow> b0 = hashes"
    and small0: "length ''hello'' < (2 :: nat) ^ 31 \<longrightarrow> ret0 = int (length ''hello'')"
    by auto
  from none small0 r0 call0 have "utl_vsnprintf (Some hashes) 0 ''%s'' ?va = Inr (Some hashes, 5)"
    by simp
  with four show ?thesis
    by (rule conjI)
qed

text \<open>
  C9. The claim is that a call with a \<open>NULL\<close> destination writes nothing and still returns
  the full formatted length, and that a call with capacity 0 writes nothing. Nothing is
  written in either case, but the return value is again \<open>(int)idx\<close>: for the logical
  output of 2147483648 characters both calls return \<open>-2147483648\<close>.
\<close>

theorem null_destination_return_is_cast_to_int:
  "map_sum id length (logical_output ''%2147483648c'' [VA_int 65]) = Inr 2147483648
   \<and> utl_vsnprintf None 4 ''%2147483648c'' [VA_int 65] = Inr (None, - 2147483648)
   \<and> utl_vsnprintf (Some hashes) 0 ''%2147483648c'' [VA_int 65]
       = Inr (Some hashes, - 2147483648)"
  by (simp add: wide_char_output utl_vsnprintf_null utl_vsnprintf_zero wide_char_cast)

text \<open>
  C9, amended. When the run is undefined in C (an error of the model), it is so for each of
  the calls. Otherwise, with \<open>cs\<close> the logical output: the call with a \<open>NULL\<close>
  destination runs on the null sink, which leaves whatever it is given as it was; the call
  with a destination and capacity 0 leaves the destination as it was, without a terminator;
  both return what the unbounded call \<open>utl_vsprintf\<close> returns, the length of \<open>cs\<close> cast
  to \<open>int\<close>, which is the length itself when it is below \<open>2 ^ 31\<close>.
\<close>

theorem null_destination_and_zero_capacity:
  "(case logical_output format va of
      Inl e \<Rightarrow>
        utl_vsnprintf None count format va = Inl e
        \<and> vsnprintf_run out_null w count format va = Inl e
        \<and> utl_vsnprintf (Some buffer) 0 format va = Inl e
    | Inr cs \<Rightarrow>
        (\<exists>ret. utl_vsnprintf None count format va = Inr (None, ret)
           \<and> vsnprintf_run out_null w count format va = Inr (w, ret)
           \<and> utl_vsnprintf (Some buffer) 0 format va = Inr (Some buffer, ret)
           \<and> map_sum id snd (utl_vsprintf (Some buffer) format va) = Inr ret
           \<and> ret = sint (ucast (of_nat (length cs) :: size_t) :: 32 word)
           \<and> (length cs < 2 ^ 31 \<longrightarrow> ret = int (length cs))))"
proof (cases "logical_output format va")
  case (Inl e)
  then show ?thesis
    by (simp add: utl_vsnprintf_null vsnprintf_run_null utl_vsnprintf_zero)
next
  case (Inr cs)
  then show ?thesis
    by (simp add: utl_vsnprintf_null vsnprintf_run_null utl_vsnprintf_zero utl_vsprintf_return
        int_cast_small)
qed

text \<open>
  An instance: \<open>hello\<close> with \<open>%s\<close>, for a \<open>NULL\<close> destination, for the null sink over a
  destination of capacity 4, and for a destination of capacity 0.
\<close>

theorem null_destination_and_zero_capacity_witness:
  "utl_vsnprintf None 4 ''%s'' [VA_char_ptr (Some ''hello'')] = Inr (None, 5)
   \<and> vsnprintf_run out_null hashes 4 ''%s'' [VA_char_ptr (Some ''hello'')] = Inr (hashes, 5)
   \<and> utl_vsnprintf (Some hashes) 0 ''%s'' [VA_char_ptr (Some ''hello'')] = Inr (Some hashes, 5)"
proof -
  let ?va = "[VA_char_ptr (Some ''hello'')]"
  have lo: "logical_output ''%s'' ?va = Inr ''hello''"
    by code_simp
  from null_destination_and_zero_capacity [where format = "''%s''" and va = ?va
      and count = 4 and w = hashes and buffer = hashes]
  obtain ret where a: "utl_vsnprintf None 4 ''%s'' ?va = Inr (None, ret)"
    and b: "vsnprintf_run out_null hashes 4 ''%s'' ?va = Inr (hashes, ret)"
    and c: "utl_vsnprintf (Some hashes) 0 ''%s'' ?va = Inr (Some hashes, ret)"
    and r: "length ''hello'' < (2 :: nat) ^ 31 \<longrightarrow> ret = int (length ''hello'')"
    unfolding lo sum.case by blast
  from r have "ret = 5"
    by simp
  with a b c show ?thesis
    by (simp only: simp_thms)
qed

text \<open>
  C8. The outcome of a call is a function of the capacity, the format and the arguments
  alone: there is one result \<open>r\<close>, an error or the bytes stored at each position (for the
  given capacity and for the unbounded calls), the characters handed on and the return value,
  such that every entry point, on every destination, returns that error, or that return
  value with exactly those bytes written over the destination it was given, those characters
  appended to what the console had received, or the callback applied to those characters in
  order. Two calls with the same arguments on two destinations therefore store the same
  bytes at the same positions and return the same value, whatever the destinations held.
\<close>

theorem formatter_holds_no_state:
  "\<exists>r. (\<forall>b. utl_vsnprintf (Some b) count format va
            = map_sum id (\<lambda>(m, m1, cs, ret). (Some (overwrite b m), ret)) r)
      \<and> (\<forall>b. utl_snprintf (Some b) count format va
            = map_sum id (\<lambda>(m, m1, cs, ret). (Some (overwrite b m), ret)) r)
      \<and> (\<forall>b. utl_vsprintf (Some b) format va
            = map_sum id (\<lambda>(m, m1, cs, ret). (Some (overwrite b m1), ret)) r)
      \<and> (\<forall>b. utl_sprintf (Some b) format va
            = map_sum id (\<lambda>(m, m1, cs, ret). (Some (overwrite b m1), ret)) r)
      \<and> (\<forall>console. utl_vprintf console format va
            = map_sum id (\<lambda>(m, m1, cs, ret). (console @ cs, ret)) r)
      \<and> (\<forall>console. utl_printf console format va
            = map_sum id (\<lambda>(m, m1, cs, ret). (console @ cs, ret)) r)
      \<and> (\<forall>out a. utl_vfctprintf out a format va
            = map_sum id (\<lambda>(m, m1, cs, ret). (fold out cs (a :: 'a), ret)) r)
      \<and> (\<forall>out a. utl_fctprintf out a format va
            = map_sum id (\<lambda>(m, m1, cs, ret). (fold out cs (a :: 'a), ret)) r)"
proof (cases "logical_output format va")
  case (Inl e)
  define r :: "error + (size_t \<Rightarrow> char option) \<times> (size_t \<Rightarrow> char option) \<times> string \<times> int"
    where "r = Inl e"
  have "(\<forall>b. utl_vsnprintf (Some b) count format va
            = map_sum id (\<lambda>(m, m1, cs, ret). (Some (overwrite b m), ret)) r)
      \<and> (\<forall>b. utl_snprintf (Some b) count format va
            = map_sum id (\<lambda>(m, m1, cs, ret). (Some (overwrite b m), ret)) r)
      \<and> (\<forall>b. utl_vsprintf (Some b) format va
            = map_sum id (\<lambda>(m, m1, cs, ret). (Some (overwrite b m1), ret)) r)
      \<and> (\<forall>b. utl_sprintf (Some b) format va
            = map_sum id (\<lambda>(m, m1, cs, ret). (Some (overwrite b m1), ret)) r)
      \<and> (\<forall>console. utl_vprintf console format va
            = map_sum id (\<lambda>(m, m1, cs, ret). (console @ cs, ret)) r)
      \<and> (\<forall>console. utl_printf console format va
            = map_sum id (\<lambda>(m, m1, cs, ret). (console @ cs, ret)) r)
      \<and> (\<forall>out a. utl_vfctprintf out a format va
            = map_sum id (\<lambda>(m, m1, cs, ret). (fold out cs (a :: 'a), ret)) r)
      \<and> (\<forall>out a. utl_fctprintf out a format va
            = map_sum id (\<lambda>(m, m1, cs, ret). (fold out cs (a :: 'a), ret)) r)"
    by (simp add: r_def utl_vsnprintf_def utl_snprintf_def utl_vsprintf_def utl_sprintf_def
        utl_vprintf_def utl_printf_def utl_vfctprintf_def utl_fctprintf_def vsnprintf_def
        vsnprintf_run_Inl [OF Inl])
  then show ?thesis
    by (rule exI [of _ r])
next
  case (Inr cs)
  let ?ret = "sint (ucast (of_nat (length cs) :: size_t) :: 32 word)"
  obtain m where m: "\<And>b. vsnprintf_run out_buffer b count format va
      = Inr (overwrite b m, ?ret)"
    using vsnprintf_run_buffer [OF Inr, of count] by blast
  obtain m1 where m1: "\<And>b. vsnprintf_run out_buffer b (- 1) format va
      = Inr (overwrite b m1, ?ret)"
    using vsnprintf_run_buffer [OF Inr, of "- 1"] by blast
  define r :: "error + (size_t \<Rightarrow> char option) \<times> (size_t \<Rightarrow> char option) \<times> string \<times> int"
    where "r = Inr (m, m1, filter (\<lambda>c. c \<noteq> CHR 0x00) cs, ?ret)"
  have "(\<forall>b. utl_vsnprintf (Some b) count format va
            = map_sum id (\<lambda>(m, m1, cs, ret). (Some (overwrite b m), ret)) r)
      \<and> (\<forall>b. utl_snprintf (Some b) count format va
            = map_sum id (\<lambda>(m, m1, cs, ret). (Some (overwrite b m), ret)) r)
      \<and> (\<forall>b. utl_vsprintf (Some b) format va
            = map_sum id (\<lambda>(m, m1, cs, ret). (Some (overwrite b m1), ret)) r)
      \<and> (\<forall>b. utl_sprintf (Some b) format va
            = map_sum id (\<lambda>(m, m1, cs, ret). (Some (overwrite b m1), ret)) r)
      \<and> (\<forall>console. utl_vprintf console format va
            = map_sum id (\<lambda>(m, m1, cs, ret). (console @ cs, ret)) r)
      \<and> (\<forall>console. utl_printf console format va
            = map_sum id (\<lambda>(m, m1, cs, ret). (console @ cs, ret)) r)
      \<and> (\<forall>out a. utl_vfctprintf out a format va
            = map_sum id (\<lambda>(m, m1, cs, ret). (fold out cs (a :: 'a), ret)) r)
      \<and> (\<forall>out a. utl_fctprintf out a format va
            = map_sum id (\<lambda>(m, m1, cs, ret). (fold out cs (a :: 'a), ret)) r)"
    by (simp add: r_def utl_vsnprintf_def utl_snprintf_def utl_vsprintf_def utl_sprintf_def
        utl_vprintf_def utl_printf_def utl_vfctprintf_def utl_fctprintf_def vsnprintf_def
        m m1 vsnprintf_run_char [OF Inr] vsnprintf_run_fct [OF Inr])
  then show ?thesis
    by (rule exI [of _ r])
qed

text \<open>
  An instance: from the run of \<open>%s\<close> with \<open>hello\<close> on a destination of 4 bytes filled with
  \<open>#\<close> and on an empty console, what the same call stores in a destination filled with
  dots and appends to a console that holds \<open>> \<close>.
\<close>

theorem formatter_holds_no_state_witness:
  "\<exists>b'. utl_vsnprintf (Some (\<lambda>i. CHR ''.'')) 4 ''%s'' [VA_char_ptr (Some ''hello'')]
       = Inr (Some b', 5)
     \<and> map b' [0, 1, 2, 3] = [CHR ''h'', CHR ''e'', CHR ''l'', CHR 0x00]
     \<and> utl_printf ''> '' ''%s'' [VA_char_ptr (Some ''hello'')] = Inr (''> hello'', 5)"
proof -
  let ?va = "[VA_char_ptr (Some ''hello'')]"
  let ?dots = "(\<lambda>i. CHR ''.'') :: char_buffer"
  have lo: "logical_output ''%s'' ?va = Inr ''hello''"
    by code_simp
  define bh where "bh = out_buffer CHR 0x00 (emit out_buffer hashes 0 4 ''hello'') 3 4"
  have h: "utl_vsnprintf (Some hashes) 4 ''%s'' ?va = Inr (Some bh, 5)"
    by (simp add: utl_vsnprintf_emit lo bh_def)
  have bh: "bh 0 = CHR ''h''" "bh 1 = CHR ''e''" "bh 2 = CHR ''l''" "bh 3 = CHR 0x00"
    by (simp_all add: bh_def out_buffer_apply)
  have p: "utl_printf [] ''%s'' ?va = Inr (''hello'', 5)"
    by (simp add: utl_printf_def vsnprintf_run_char [OF lo])
  from formatter_holds_no_state [where ?'a = unit and count = 4 and format = "''%s''" and va = ?va]
  obtain r :: "error + (size_t \<Rightarrow> char option) \<times> (size_t \<Rightarrow> char option) \<times> string \<times> int"
    where a: "\<forall>b. utl_vsnprintf (Some b) 4 ''%s'' ?va
        = map_sum id (\<lambda>(m, m1, cs, ret). (Some (overwrite b m), ret)) r"
    and c: "\<forall>console. utl_printf console ''%s'' ?va
        = map_sum id (\<lambda>(m, m1, cs, ret). (console @ cs, ret)) r"
    by (elim exE conjE) (rule that, assumption+)
  note a = a [rule_format] and c = c [rule_format]
  from a [of hashes] h have "map_sum id (\<lambda>(m, m1, cs, ret). (Some (overwrite hashes m), ret)) r
      = Inr (Some bh, 5)"
    by (simp only:)
  then obtain m m1 cs where r: "r = Inr (m, m1, cs, 5)" and m: "overwrite hashes m = bh"
    by (cases r) auto
  from c [of "[]"] p have "map_sum id (\<lambda>(m, m1, cs, ret). ([] @ cs, ret)) r = Inr (''hello'', 5)"
    by (simp only:)
  then have cs: "cs = ''hello''"
    unfolding r by simp
  have d0: "overwrite ?dots m 0 = bh 0"
    using m by (rule overwrite_known) (simp add: bh hashes_def)
  have d1: "overwrite ?dots m 1 = bh 1"
    using m by (rule overwrite_known) (simp add: bh hashes_def)
  have d2: "overwrite ?dots m 2 = bh 2"
    using m by (rule overwrite_known) (simp add: bh hashes_def)
  have d3: "overwrite ?dots m 3 = bh 3"
    using m by (rule overwrite_known) (simp add: bh hashes_def)
  have x: "map (overwrite ?dots m) [0, 1, 2, 3] = [CHR ''h'', CHR ''e'', CHR ''l'', CHR 0x00]"
    by (simp only: list.map d0 d1 d2 d3 bh)
  have y: "utl_vsnprintf (Some ?dots) 4 ''%s'' ?va = Inr (Some (overwrite ?dots m), 5)"
    unfolding a r by simp
  have z: "utl_printf ''> '' ''%s'' ?va = Inr (''> hello'', 5)"
    unfolding c r cs by simp
  from x y z show ?thesis
    by (intro exI [of _ "overwrite ?dots m"] conjI)
qed

section \<open>Claims about single conversions\<close>

text \<open>
  C4. The claim is that a token with an unrecognized conversion letter emits the \<open>%\<close> and
  the letter and consumes no argument. The \<open>%\<close> is skipped before the token is parsed and
  the default branch of the switch emits the letter alone: \<open>%k\<close> prints \<open>k\<close>. A width
  \<open>*\<close> before the letter is parsed as for every token, and reads an \<open>int\<close> argument.
\<close>

theorem unrecognized_letter_is_emitted_alone:
  "logical_output ''%k'' [] = Inr ''k''
   \<and> logical_output ''a%kb'' [] = Inr ''akb''
   \<and> eval_token out_log [] 0 0 ''*k'' [VA_int 5] = Inr ((''k'', 1), [], [])"
  by code_simp

text \<open>
  C4, amended. For a conversion letter \<open>c\<close> that is none of \<open>d i u x X o b f F e E g G c s
  p %\<close> and not the terminating NUL, the switch, whatever flags, width and precision were
  parsed, hands the one character \<open>c\<close> to the sink, moves past the letter and leaves the
  arguments as they are. So a token whose fields are parsed and leave the letter \<open>c\<close> emits
  \<open>c\<close> alone and leaves the arguments as the fields left them (only a width or precision
  \<open>*\<close> reads one), and the output of the format is \<open>c\<close> followed by the output of the rest.
  For the token that is the letter alone no argument is consumed at all.
\<close>

theorem unrecognized_conversion_letter:
  assumes letter: "c \<notin> set ''diuxXobfFeEgGcsp%''" and nz: "c \<noteq> CHR 0x00"
  shows "eval_specifier out buffer idx maxlen flags width precision (c # rest) va
           = Inr ((out c buffer idx maxlen, idx + 1), rest, va)
     \<and> (eval_flags 0 format = (fa, fma)
          \<and> eval_width fa fma vaa = Inr (fb, width, fmb, vab)
          \<and> eval_precision fb fmb vab = Inr (fc, precision, fmc, va)
          \<and> eval_length fc fmc = (flags, c # rest) \<longrightarrow>
          eval_token out buffer idx maxlen format vaa
            = Inr ((out c buffer idx maxlen, idx + 1), rest, va)
          \<and> logical_output (CHR ''%'' # format) vaa
              = map_sum id ((#) c) (logical_output rest va))
     \<and> (\<not> is_digit c \<and> c \<notin> set ''-+ #*.'' \<and> c \<notin> set ''lhtjz'' \<longrightarrow>
          eval_token out buffer idx maxlen (c # rest) va
            = Inr ((out c buffer idx maxlen, idx + 1), rest, va)
          \<and> logical_output (CHR ''%'' # c # rest) va
              = map_sum id ((#) c) (logical_output rest va))"
proof -
  have cons: "(@) [c] = (#) c"
    by (rule ext) simp
  have lo: "logical_output (CHR ''%'' # fm) v = map_sum id ((#) c) (logical_output rest va)"
    if "\<And>out :: string out_fct_type. \<And>buffer idx maxlen.
          eval_token out buffer idx maxlen fm v
            = Inr ((out c buffer idx maxlen, idx + 1), rest, va)"
    for fm v
  proof -
    have "eval_token out_log [] 0 0 fm v = Inr (([c], 0 + 1), rest, va)"
      using that [of out_log "[]" 0 0] by (simp add: out_log_apply)
    then have "logical_output (CHR ''%'' # fm) v
      = map_sum id ((@) [c]) (logical_output rest va)"
      by (rule logical_output_percent)
    then show ?thesis
      by (simp only: cons)
  qed
  have tok: "eval_token out buffer idx maxlen format vaa
            = Inr ((out c buffer idx maxlen, idx + 1), rest, va)"
    if "eval_flags 0 format = (fa, fma)"
      "eval_width fa fma vaa = Inr (fb, width, fmb, vab)"
      "eval_precision fb fmb vab = Inr (fc, precision, fmc, va)"
      "eval_length fc fmc = (flags, c # rest)"
    for out :: "'x out_fct_type" and buffer idx maxlen
    unfolding eval_token_def
    by (simp only: that prod.case sum.case eval_specifier_default [OF letter nz])
  have plain: "eval_token out buffer idx maxlen (c # rest) va
            = Inr ((out c buffer idx maxlen, idx + 1), rest, va)"
    if "\<not> is_digit c" "c \<notin> set ''-+ #*.''" "c \<notin> set ''lhtjz''"
    for out :: "'x out_fct_type" and buffer idx maxlen
    by (simp only: eval_token_no_fields [OF that(1, 2)] eval_length_none [OF that(3)] prod.case
        eval_specifier_default [OF letter nz])
  from eval_specifier_default [OF letter nz, of out buffer idx maxlen flags width precision rest va]
    tok [of out buffer idx maxlen] lo [OF tok] plain [of out buffer idx maxlen] lo [OF plain]
  show ?thesis by blast
qed

text \<open>
  An instance: the letter \<open>k\<close>, alone and after the flag \<open>-\<close>, the width 5 and the length
  field \<open>l\<close>, with an argument that stays unread.
\<close>

theorem unrecognized_conversion_letter_witness:
  "eval_specifier out_log [] 0 0 0 0 0 ''kb'' [VA_int 7] = Inr ((''k'', 1), ''b'', [VA_int 7])
   \<and> eval_token out_log [] 0 0 ''-5lkb'' [VA_int 7] = Inr ((''k'', 1), ''b'', [VA_int 7])
   \<and> logical_output ''%-5lkb'' [VA_int 7] = Inr ''kb''
   \<and> eval_token out_log [] 0 0 ''kb'' [VA_int 7] = Inr ((''k'', 1), ''b'', [VA_int 7])
   \<and> logical_output ''%kb'' [VA_int 7] = Inr ''kb''"
proof -
  have l: "CHR ''k'' \<notin> set ''diuxXobfFeEgGcsp%''" and nz: "CHR ''k'' \<noteq> CHR 0x00"
    by simp_all
  have d: "\<not> is_digit CHR ''k''"
    by code_simp
  have p: "CHR ''k'' \<notin> set ''-+ #*.''" "CHR ''k'' \<notin> set ''lhtjz''"
    by simp_all
  have r: "logical_output ''b'' [VA_int 7] = Inr ''b''"
    by code_simp
  have f: "eval_flags 0 ''-5lkb'' = (FLAGS_LEFT, ''5lkb'')"
    by code_simp
  have w: "eval_width FLAGS_LEFT ''5lkb'' [VA_int 7] = Inr (FLAGS_LEFT, 5, ''lkb'', [VA_int 7])"
    by code_simp
  have q: "eval_precision FLAGS_LEFT ''lkb'' [VA_int 7] = Inr (FLAGS_LEFT, 0, ''lkb'', [VA_int 7])"
    by code_simp
  have n: "eval_length FLAGS_LEFT ''lkb'' = (FLAGS_LEFT OR FLAGS_LONG, ''kb'')"
    by code_simp
  from unrecognized_conversion_letter [OF l nz, where out = out_log and buffer = "[]"
      and idx = 0 and maxlen = 0 and flags = "FLAGS_LEFT OR FLAGS_LONG" and width = 5
      and precision = 0 and rest = "''b''" and va = "[VA_int 7]" and format = "''-5lkb''"
      and fa = FLAGS_LEFT and fma = "''5lkb''" and vaa = "[VA_int 7]"
      and fb = FLAGS_LEFT and fmb = "''lkb''" and vab = "[VA_int 7]"
      and fc = FLAGS_LEFT and fmc = "''lkb''"]
    d p r f w q n
  have a: "eval_token out_log [] 0 0 ''-5lkb'' [VA_int 7] = Inr ((''k'', 1), ''b'', [VA_int 7])
   \<and> logical_output ''%-5lkb'' [VA_int 7] = Inr ''kb''
   \<and> eval_token out_log [] 0 0 ''kb'' [VA_int 7] = Inr ((''k'', 1), ''b'', [VA_int 7])
   \<and> logical_output ''%kb'' [VA_int 7] = Inr ''kb''"
    by (simp add: out_log_apply)
  have b: "eval_specifier out_log [] 0 0 0 0 0 ''kb'' [VA_int 7]
      = Inr ((''k'', 1), ''b'', [VA_int 7])"
    using eval_specifier_default [OF l nz, of out_log "[]" 0 0 0 0 0 "''b''" "[VA_int 7]"]
    by (simp add: out_log_apply)
  from a b show ?thesis
    by (simp only: simp_thms)
qed

text \<open>
  C7. For every flags, width and precision, the conversion \<open>s\<close> with a \<open>NULL\<close> argument
  returns normally and writes \<open>(null)\<close>, padded with spaces to the width (on the right with
  the flag \<open>-\<close>, on the left without it, and not at all with the flag \<open>0\<close>); the precision
  is ignored. The conversion \<open>p\<close> with a \<open>NULL\<close> argument returns normally and writes
  \<open>(nil)\<close>, padded on the right to its width of 18 with the flag \<open>-\<close> and not padded
  without it. With no flag, width or precision the outputs are \<open>(null)\<close> and \<open>(nil)\<close>.
\<close>

theorem null_pointer_placeholders:
  "eval_specifier out buffer idx maxlen flags width precision (CHR ''s'' # rest)
       (VA_char_ptr None # va)
     = Inr (written out buffer idx maxlen
             (if has_flag flags FLAGS_LEFT
              then ''(null)'' @ replicate (unat width - 6) CHR '' ''
              else if has_flag flags FLAGS_ZEROPAD then ''(null)''
              else replicate (unat width - 6) CHR '' '' @ ''(null)''), rest, va)
   \<and> eval_specifier out buffer idx maxlen flags width precision (CHR ''p'' # rest)
       (VA_void_ptr 0 # va)
     = Inr (written out buffer idx maxlen
             (if has_flag flags FLAGS_LEFT then ''(nil)'' @ replicate 13 CHR '' ''
              else ''(nil)''), rest, va)
   \<and> logical_output (''%s'' @ rest) (VA_char_ptr None # va)
     = map_sum id ((@) ''(null)'') (logical_output rest va)
   \<and> logical_output (''%p'' @ rest) (VA_void_ptr 0 # va)
     = map_sum id ((@) ''(nil)'') (logical_output rest va)"
proof -
  have s: "eval_specifier out buffer idx maxlen flags width precision (CHR ''s'' # rest)
       (VA_char_ptr None # va)
     = Inr (written out buffer idx maxlen
             (if has_flag flags FLAGS_LEFT
              then ''(null)'' @ replicate (unat width - 6) CHR '' ''
              else if has_flag flags FLAGS_ZEROPAD then ''(null)''
              else replicate (unat width - 6) CHR '' '' @ ''(null)''), rest, va)"
    for out :: "'x out_fct_type" and buffer idx maxlen flags width precision
    by (simp add: eval_specifier_def peek_def eval_string_null)
  have p: "eval_specifier out buffer idx maxlen flags width precision (CHR ''p'' # rest)
       (VA_void_ptr 0 # va)
     = Inr (written out buffer idx maxlen
             (if has_flag flags FLAGS_LEFT then ''(nil)'' @ replicate 13 CHR '' ''
              else ''(nil)''), rest, va)"
    for out :: "'x out_fct_type" and buffer idx maxlen flags width precision
    by (simp add: eval_specifier_def peek_def eval_pointer_null)
  have ds: "\<not> is_digit CHR ''s''" and dp: "\<not> is_digit CHR ''p''"
    by code_simp+
  have "eval_token out_log [] 0 0 (CHR ''s'' # rest) (VA_char_ptr None # va)
    = eval_specifier out_log [] 0 0 0 0 0 (CHR ''s'' # rest) (VA_char_ptr None # va)"
    using ds by (rule eval_token_plain) simp
  also have "\<dots> = Inr ((''(null)'', 6), rest, va)"
    by (simp add: s has_flag_zero written_log)
  finally have ls: "logical_output (''%s'' @ rest) (VA_char_ptr None # va)
     = map_sum id ((@) ''(null)'') (logical_output rest va)"
    by (simp only: append_Cons append_Nil logical_output_percent)
  have "eval_token out_log [] 0 0 (CHR ''p'' # rest) (VA_void_ptr 0 # va)
    = eval_specifier out_log [] 0 0 0 0 0 (CHR ''p'' # rest) (VA_void_ptr 0 # va)"
    using dp by (rule eval_token_plain) simp
  also have "\<dots> = Inr ((''(nil)'', 5), rest, va)"
    by (simp add: p has_flag_zero written_log)
  finally have lp: "logical_output (''%p'' @ rest) (VA_void_ptr 0 # va)
     = map_sum id ((@) ''(nil)'') (logical_output rest va)"
    by (simp only: append_Cons append_Nil logical_output_percent)
  from s [of out buffer idx maxlen flags width precision]
    p [of out buffer idx maxlen flags width precision] ls lp
  show ?thesis
    by (intro conjI)
qed

text \<open>An instance: both conversions with the flag \<open>-\<close>, width 8 and precision 2, and plain.\<close>

theorem null_pointer_placeholders_witness:
  "eval_specifier out_log [] 0 0 FLAGS_LEFT 8 2 ''s!'' [VA_char_ptr None]
       = Inr ((''(null)  '', 8), ''!'', [])
   \<and> eval_specifier out_log [] 0 0 FLAGS_LEFT 8 2 ''p!'' [VA_void_ptr 0]
       = Inr ((''(nil)             '', 18), ''!'', [])
   \<and> logical_output ''%s!'' [VA_char_ptr None] = Inr ''(null)!''
   \<and> logical_output ''%p!'' [VA_void_ptr 0] = Inr ''(nil)!''"
proof -
  have l: "has_flag FLAGS_LEFT FLAGS_LEFT"
    by code_simp
  have r: "logical_output ''!'' [] = Inr ''!''"
    by code_simp
  have u: "unat (8 :: uint) - 6 = 2"
    by simp
  have rep2: "replicate 2 CHR '' '' = ''  ''"
    by code_simp
  have rep13: "replicate 13 CHR '' '' = ''             ''"
    by code_simp
  from null_pointer_placeholders [of out_log "[]" 0 0 FLAGS_LEFT 8 2 "''!''" "[]"]
  show ?thesis
    unfolding eqTrueI [OF l] if_True u rep2 rep13 r written_log
    by simp
qed



section \<open>Claims about the rounding of \<open>get_components\<close>\<close>




end
